theory Spec2Isabelle
  imports Main "HOL-Library.Word"
begin

chapter \<open>A read-your-writes router in front of a PostgreSQL primary/replica topology\<close>

text \<open>
  The development embeds the Go package \<open>dbresolver\<close>: the LSN value type, the
  regular-expression query classifier, the causal router, the HTTP cookie transport and
  the facade with its transactions. Pure functions are HOL functions; code that talks to
  a database threads a \<open>world\<close> record that logs every statement sent to a backend.
\<close>

section \<open>The LSN value type\<close>

text \<open>
  \<open>type LSN struct { Upper uint32; Lower uint32 }\<close>: both halves are 32-bit machine
  words.
\<close>

record LSN =
  Upper :: "32 word"
  Lower :: "32 word"

datatype lsn_error = EmptyLSN | InvalidFormat | InvalidUpper | InvalidLower

text \<open>
  \<open>strconv.ParseUint(s, 16, 32)\<close>. A digit is \<open>0-9\<close>, \<open>a-f\<close> or \<open>A-F\<close>
  (the library lowers a letter with \<open>c | 0x20\<close> and rejects a digit value of 16 or
  more); the empty string and any value above \<open>2^32 - 1\<close> are errors. \<open>ParseLSN\<close>
  drops the library's error value, so the model returns \<open>None\<close> for every failure.
\<close>

definition hex_value :: "char \<Rightarrow> nat option" where
  "hex_value c =
     (let n = (of_char c :: nat) in
      if 48 \<le> n \<and> n \<le> 57 then Some (n - 48)
      else if 97 \<le> n \<and> n \<le> 102 then Some (n - 87)
      else if 65 \<le> n \<and> n \<le> 70 then Some (n - 55)
      else None)"

fun ParseUint_loop :: "nat \<Rightarrow> string \<Rightarrow> nat option" where
  "ParseUint_loop n [] = Some n"
| "ParseUint_loop n (c # cs) =
     (case hex_value c of
        None \<Rightarrow> None
      | Some d \<Rightarrow> (let n1 = n * 16 + d in if n1 > 4294967295 then None else ParseUint_loop n1 cs))"

definition ParseUint_16_32 :: "string \<Rightarrow> nat option" where
  "ParseUint_16_32 s = (if s = [] then None else ParseUint_loop 0 s)"

text \<open>\<open>strings.Split\<close> with a one-byte separator.\<close>

fun Split :: "char \<Rightarrow> string \<Rightarrow> string list" where
  "Split sep [] = [[]]"
| "Split sep (c # cs) =
     (if c = sep then [] # Split sep cs
      else (case Split sep cs of p # ps \<Rightarrow> (c # p) # ps | [] \<Rightarrow> [[c]]))"

definition ParseLSN :: "string \<Rightarrow> lsn_error + LSN" where
  "ParseLSN lsnStr =
     (if lsnStr = [] then Inl EmptyLSN
      else case Split (CHR ''/'') lsnStr of
        [p0, p1] \<Rightarrow>
          (case ParseUint_16_32 p0 of
             None \<Rightarrow> Inl InvalidUpper
           | Some upper \<Rightarrow>
               (case ParseUint_16_32 p1 of
                  None \<Rightarrow> Inl InvalidLower
                | Some lower \<Rightarrow> Inr \<lparr>Upper = of_nat upper, Lower = of_nat lower\<rparr>))
      | _ \<Rightarrow> Inl InvalidFormat)"

text \<open>
  \<open>fmt.Sprintf("%X/%X", lsn.Upper, lsn.Lower)\<close>: upper-case hexadecimal without
  padding, \<open>0\<close> for zero.
\<close>

definition hex_digit :: "nat \<Rightarrow> char" where
  "hex_digit d = ''0123456789ABCDEF'' ! d"

fun format_X :: "nat \<Rightarrow> string" where
  "format_X n = (if n < 16 then [hex_digit n] else format_X (n div 16) @ [hex_digit (n mod 16)])"

declare format_X.simps [simp del]

definition LSN_String :: "LSN \<Rightarrow> string" where
  "LSN_String lsn = format_X (unat (Upper lsn)) @ ''/'' @ format_X (unat (Lower lsn))"

text \<open>The case normalisation of the round-trip property: ASCII letters to upper case.\<close>

definition to_upper :: "char \<Rightarrow> char" where
  "to_upper c = (let n = (of_char c :: nat) in if 97 \<le> n \<and> n \<le> 122 then char_of (n - 32) else c)"

text \<open>
  A valid LSN string in the words of the specification: two segments of 1 to 8
  hexadecimal digits around exactly one solidus. A segment has no superfluous leading
  zero when it is \<open>0\<close> itself or starts with another digit.
\<close>

definition is_hex :: "char \<Rightarrow> bool" where
  "is_hex c = (hex_value c \<noteq> None)"

definition hex_segment :: "string \<Rightarrow> bool" where
  "hex_segment ds = (1 \<le> length ds \<and> length ds \<le> 8 \<and> list_all is_hex ds)"

definition no_leading_zeros :: "string \<Rightarrow> bool" where
  "no_leading_zeros ds = (ds = ''0'' \<or> (ds \<noteq> [] \<and> hd ds \<noteq> CHR ''0''))"

definition valid_lsn_string :: "string \<Rightarrow> bool" where
  "valid_lsn_string s =
     (case Split (CHR ''/'') s of [a, b] \<Rightarrow> hex_segment a \<and> hex_segment b | _ \<Rightarrow> False)"

definition canonical_lsn_string :: "string \<Rightarrow> bool" where
  "canonical_lsn_string s =
     (case Split (CHR ''/'') s of
        [a, b] \<Rightarrow> hex_segment a \<and> no_leading_zeros a \<and> hex_segment b \<and> no_leading_zeros b
      | _ \<Rightarrow> False)"


text \<open>The comparison methods of \<open>LSN\<close>.\<close>

definition Compare :: "LSN \<Rightarrow> LSN \<Rightarrow> int" where
  "Compare lsn other =
     (if Upper lsn < Upper other then -1
      else if Upper lsn > Upper other then 1
      else if Lower lsn < Lower other then -1
      else if Lower lsn > Lower other then 1
      else 0)"

definition LessThan :: "LSN \<Rightarrow> LSN \<Rightarrow> bool" where
  "LessThan lsn other = (Compare lsn other < 0)"

definition GreaterThanOrEqual :: "LSN \<Rightarrow> LSN \<Rightarrow> bool" where
  "GreaterThanOrEqual lsn other = (Compare lsn other \<ge> 0)"

definition IsZero :: "LSN \<Rightarrow> bool" where
  "IsZero lsn = (Upper lsn = 0 \<and> Lower lsn = 0)"

definition zero_LSN :: LSN where
  "zero_LSN = \<lparr>Upper = 0, Lower = 0\<rparr>"

section \<open>The query classifier\<close>

text \<open>\<open>type QueryType int\<close> with its three constants.\<close>

datatype QueryType = QueryTypeUnknown | QueryTypeRead | QueryTypeWrite

text \<open>
  \<open>DefaultQueryTypeChecker\<close> holds the compiled pattern
  \<^verbatim>\<open>(?i)^\s*(INSERT|UPDATE|DELETE|MERGE|TRUNCATE|REPLACE)\b|\bRETURNING\b\<close>
  and \<open>Check\<close> asks \<open>MatchString\<close> whether the pattern matches anywhere in the
  statement. The pattern is embedded as a value of a small regular-expression datatype and
  matched by an interpreter that follows Go's \<open>regexp\<close> package on strings of bytes:
  \<^item> \<^verbatim>\<open>\s\<close> is tab, line feed, form feed, carriage return or space;
  \<^item> \<^verbatim>\<open>\b\<close> is the ASCII word boundary: exactly one of the bytes before and after
    the cursor is one of \<open>0-9A-Za-z_\<close> (a missing byte and every byte of a non-ASCII
    character count as non-word);
  \<^item> \<^verbatim>\<open>^\<close> (no multi-line flag) holds at the start of the text only;
  \<^item> under \<^verbatim>\<open>(?i)\<close> a literal letter matches every character of its simple case
    folding orbit: its upper and lower case and, for \<open>S\<close>, U+017F (bytes C5 BF) and,
    for \<open>K\<close>, U+212A (bytes E2 84 AA).
\<close>

definition to_lower :: "char \<Rightarrow> char" where
  "to_lower c = (let n = (of_char c :: nat) in if 65 \<le> n \<and> n \<le> 90 then char_of (n + 32) else c)"

definition is_space :: "char \<Rightarrow> bool" where
  "is_space c = (c \<in> set [char_of (9::nat), char_of (10::nat), char_of (12::nat), char_of (13::nat), CHR '' ''])"

definition is_word_char :: "char \<Rightarrow> bool" where
  "is_word_char c =
     (let n = (of_char c :: nat) in
      (48 \<le> n \<and> n \<le> 57) \<or> (65 \<le> n \<and> n \<le> 90) \<or> (97 \<le> n \<and> n \<le> 122) \<or> c = CHR ''_'')"

definition fold_bytes :: "char \<Rightarrow> string list" where
  "fold_bytes c =
     [[to_upper c], [to_lower c]] @
     (if to_upper c = CHR ''S'' then [[char_of (197::nat), char_of (191::nat)]]
      else if to_upper c = CHR ''K'' then [[char_of (226::nat), char_of (132::nat), char_of (170::nat)]]
      else [])"

datatype regex =
    Eps
  | BeginText
  | WordBoundary
  | Space
  | LitFold char
  | Star regex
  | Concat regex regex
  | Alt regex regex

text \<open>
  A cursor is a position in the text: the bytes before it and the bytes after it.
  \<open>matches r p\<close> lists the cursors at which a match of \<open>r\<close> starting at \<open>p\<close>
  can end. A starred expression repeats its body only while the body consumes input.
\<close>

type_synonym cursor = "string \<times> string"

definition at_word_boundary :: "cursor \<Rightarrow> bool" where
  "at_word_boundary p =
     ((fst p \<noteq> [] \<and> is_word_char (last (fst p))) \<noteq> (snd p \<noteq> [] \<and> is_word_char (hd (snd p))))"

function matches :: "regex \<Rightarrow> cursor \<Rightarrow> cursor list" where
  "matches Eps p = [p]"
| "matches BeginText p = (if fst p = [] then [p] else [])"
| "matches WordBoundary p = (if at_word_boundary p then [p] else [])"
| "matches Space p =
     (case snd p of [] \<Rightarrow> [] | c # cs \<Rightarrow> if is_space c then [(fst p @ [c], cs)] else [])"
| "matches (LitFold l) p =
     map (\<lambda>a. (fst p @ a, drop (length a) (snd p)))
         (filter (\<lambda>a. take (length a) (snd p) = a) (fold_bytes l))"
| "matches (Star r) p =
     p # concat (map (matches (Star r))
                     (filter (\<lambda>q. length (snd q) < length (snd p)) (matches r p)))"
| "matches (Concat r1 r2) p = concat (map (matches r2) (matches r1 p))"
| "matches (Alt r1 r2) p = matches r1 p @ matches r2 p"
  by pat_completeness auto
termination
  by (relation "inv_image (less_than <*lex*> less_than) (\<lambda>(r, p). (size r, length (snd p)))") auto

declare matches.simps(6) [simp del]

text \<open>\<open>MatchString\<close> is unanchored: a match may start at any cursor of the text.\<close>

definition cursors :: "string \<Rightarrow> cursor list" where
  "cursors s = map (\<lambda>i. (take i s, drop i s)) [0..<Suc (length s)]"

definition MatchString :: "regex \<Rightarrow> string \<Rightarrow> bool" where
  "MatchString r s = list_ex (\<lambda>p. matches r p \<noteq> []) (cursors s)"

fun literal :: "string \<Rightarrow> regex" where
  "literal [] = Eps"
| "literal (c # cs) = Concat (LitFold c) (literal cs)"

fun alternatives :: "regex \<Rightarrow> regex list \<Rightarrow> regex" where
  "alternatives r [] = r"
| "alternatives r (x # xs) = Alt r (alternatives x xs)"

text \<open>The two branches of the pattern and the pattern itself.\<close>

definition verbBranch :: regex where
  "verbBranch =
     Concat BeginText (Concat (Star Space)
       (Concat (alternatives (literal ''INSERT'')
                  (map literal [''UPDATE'', ''DELETE'', ''MERGE'', ''TRUNCATE'', ''REPLACE'']))
               WordBoundary))"

definition returningBranch :: regex where
  "returningBranch = Concat WordBoundary (Concat (literal ''RETURNING'') WordBoundary)"

definition writePattern :: regex where
  "writePattern = Alt verbBranch returningBranch"

definition Check :: "string \<Rightarrow> QueryType" where
  "Check query = (if MatchString writePattern query then QueryTypeWrite else QueryTypeUnknown)"

text \<open>
  The contract in the words of the specification. \<open>ci_equal w m\<close>: the bytes \<open>m\<close>
  spell the word \<open>w\<close> case-insensitively. The first token is a verb when the
  statement is whitespace, then a verb, then the end of the text or a non-word byte.
  A bare word is enclosed by word boundaries; \<open>contains_bare_word\<close> compares it
  case-insensitively, \<open>contains_bare_word_exact\<close> letter by letter as written.
\<close>

fun ci_equal :: "string \<Rightarrow> string \<Rightarrow> bool" where
  "ci_equal [] m = (m = [])"
| "ci_equal (c # cs) m =
     list_ex (\<lambda>a. take (length a) m = a \<and> ci_equal cs (drop (length a) m)) (fold_bytes c)"

definition write_verbs :: "string list" where
  "write_verbs = [''INSERT'', ''UPDATE'', ''DELETE'', ''MERGE'', ''TRUNCATE'', ''REPLACE'']"

definition word_ends :: "string \<Rightarrow> bool" where
  "word_ends rest = (rest = [] \<or> \<not> is_word_char (hd rest))"

definition word_starts :: "string \<Rightarrow> bool" where
  "word_starts pre = (pre = [] \<or> \<not> is_word_char (last pre))"

definition first_token_is_verb :: "string \<Rightarrow> bool" where
  "first_token_is_verb q =
     (\<exists>ws m rest. q = ws @ m @ rest \<and> list_all is_space ws
        \<and> (\<exists>v\<in>set write_verbs. ci_equal v m) \<and> word_ends rest)"

definition contains_bare_word :: "string \<Rightarrow> string \<Rightarrow> bool" where
  "contains_bare_word w q =
     (\<exists>pre m rest. q = pre @ m @ rest \<and> ci_equal w m \<and> word_starts pre \<and> word_ends rest)"

definition contains_bare_word_exact :: "string \<Rightarrow> string \<Rightarrow> bool" where
  "contains_bare_word_exact w q =
     (\<exists>pre rest. q = pre @ w @ rest \<and> word_starts pre \<and> word_ends rest)"

section \<open>Backends, request contexts and the world\<close>

text \<open>
  A \<open>*sql.DB\<close> is a pointer to a connection pool; only its identity matters here, so
  a handle is an address and \<open>nil\<close> is address 0. What a pool answers is outside the
  package: the \<open>world\<close> logs every call made on a pool or on a transaction, and the
  \<open>backend\<close> record holds the collaborators that are not part of the package, each
  answer being a function of the log so far. A call on the \<open>nil\<close> pool, a panic in
  Go, is handed to the backend like every other call.
\<close>

type_synonym db = nat

definition nil_db :: db where
  "nil_db = 0"

text \<open>
  The calls of \<open>database/sql\<close> that the package makes: \<open>ExecContext\<close>,
  \<open>QueryContext\<close> and \<open>QueryRowContext\<close> with the statement text,
  \<open>QueryRowContext(...).Scan\<close> as the LSN adapter issues it, and \<open>BeginTx\<close>,
  \<open>Commit\<close>, \<open>Rollback\<close>. An event names the pool the call went to, and whether it
  went to the pool itself or to the transaction opened on it.
\<close>

datatype op =
    OpExec string
  | OpQuery string
  | OpQueryRow string
  | OpQueryRowScan string
  | OpBegin
  | OpCommit
  | OpRollback

datatype event = OnDB db op | OnTx db op

text \<open>
  Errors: \<open>DriverError n\<close> is the \<open>n\<close>-th error value of the driver; the others are
  the errors that the package builds with \<open>fmt.Errorf\<close>, those with an argument wrapping
  their cause.
\<close>

datatype error =
    DriverError nat
  | ErrCausalNotEnabled
  | ErrNoProvider
  | ErrNoPrimaries
  | ErrReplicaStatus error
  | ErrNoReplicaCaughtUp
  | ErrUnableToRoute
  | ErrMasterLSNAfterWrite error
  | ErrCurrentWALLSN error
  | ErrParseMasterLSN lsn_error
  | ErrLastReplayLSN error
  | ErrParseReplicaLSN lsn_error

text \<open>
  \<open>type CausalConsistencyLevel int\<close>: the three named constants, and one constructor
  for every other integer, which the \<open>switch\<close> of \<open>RouteQuery\<close> leaves to its default.
\<close>

datatype CausalConsistencyLevel =
  NoneCausalConsistency | ReadYourWrites | StrongConsistency | UndefinedLevel

record CausalConsistencyConfig =
  Enabled :: bool
  Level :: CausalConsistencyLevel
  RequireCookie :: bool
  CookieName :: string
  CookieMaxAge :: int
  FallbackToMaster :: bool
  Timeout :: int

text \<open>\<open>LSNContext\<close>, the causal token. Its Go field \<open>Level\<close> is \<open>TokenLevel\<close> here.\<close>

record LSNContext =
  RequiredLSN :: LSN
  TokenLevel :: CausalConsistencyLevel
  ForceMaster :: bool
  HasWriteOperation :: bool

definition empty_LSNContext :: LSNContext where
  "empty_LSNContext =
     \<lparr>RequiredLSN = zero_LSN, TokenLevel = NoneCausalConsistency, ForceMaster = False,
      HasWriteOperation = False\<rparr>"

text \<open>
  A \<open>context.Context\<close> is an immutable value. Under \<open>lsnContextKey\<close> it holds a
  \<open>*LSNContext\<close>: the address of a token in the world's store, or nothing. The token
  itself is mutable and shared by every context that holds its address.
\<close>

record go_context =
  lsn_context :: "nat option"

definition Background :: go_context where
  "Background = \<lparr>lsn_context = None\<rparr>"

record world =
  tokens :: "nat \<Rightarrow> LSNContext"
  next_token :: nat
  lb_calls :: nat
  trace :: "event list"
  lastMasterLSN :: LSN

text \<open>
  The collaborators whose code is not in the package or not under \<open>src/\<close>:
  \<^item> \<open>Resolve n dbs\<close>: what \<open>LoadBalancer.Resolve(dbs)\<close> returns on its \<open>n\<close>-th call;
  \<^item> \<open>answer log ev\<close>: the error or the payload (rows, result, scanned column) that the
    driver returns for the call \<open>ev\<close> after the calls in \<open>log\<close>;
  \<^item> \<open>isDBConnectionError\<close>: the package's predicate on driver errors;
  \<^item> \<open>strings_ToUpper\<close>: the library's Unicode-aware \<open>strings.ToUpper\<close>.
\<close>

record backend =
  Resolve :: "nat \<Rightarrow> db list \<Rightarrow> db"
  answer :: "event list \<Rightarrow> event \<Rightarrow> error + string"
  isDBConnectionError :: "error \<Rightarrow> bool"
  strings_ToUpper :: "string \<Rightarrow> string"

definition perform :: "backend \<Rightarrow> event \<Rightarrow> world \<Rightarrow> (error + string) \<times> world" where
  "perform be ev w = (answer be (trace w) ev, w\<lparr>trace := trace w @ [ev]\<rparr>)"

definition lb_Resolve :: "backend \<Rightarrow> db list \<Rightarrow> world \<Rightarrow> db \<times> world" where
  "lb_Resolve be dbs w = (Resolve be (lb_calls w) dbs, w\<lparr>lb_calls := Suc (lb_calls w)\<rparr>)"

text \<open>
  Modelled from the spec: \<open>RoundRobinLoadBalancer.Resolve\<close> is not under \<open>src/\<close>.
  The specification has it return the handles in cyclic order, driven by a counter.
\<close>

definition RoundRobin :: "nat \<Rightarrow> db list \<Rightarrow> db" where
  "RoundRobin n dbs = dbs ! (n mod length dbs)"

text \<open>The selector's contract in the specification: from a non-empty slice it returns a member.\<close>

definition selector_ok :: "backend \<Rightarrow> bool" where
  "selector_ok be = (\<forall>n dbs. dbs \<noteq> [] \<longrightarrow> Resolve be n dbs \<in> set dbs)"

text \<open>\<open>WithLSNContext\<close>, \<open>GetLSNContext\<close> and the allocation \<open>&LSNContext{...}\<close>.\<close>

definition WithLSNContext :: "go_context \<Rightarrow> nat option \<Rightarrow> go_context" where
  "WithLSNContext ctx lsnCtx = ctx\<lparr>lsn_context := lsnCtx\<rparr>"

definition GetLSNContext :: "go_context \<Rightarrow> nat option" where
  "GetLSNContext ctx = lsn_context ctx"

definition new_LSNContext :: "LSNContext \<Rightarrow> world \<Rightarrow> nat \<times> world" where
  "new_LSNContext v w =
     (next_token w,
      w\<lparr>tokens := (tokens w)(next_token w := v), next_token := Suc (next_token w)\<rparr>)"

section \<open>The LSN protocol adapter\<close>

text \<open>
  \<open>PGLSNChecker\<close>: each method runs one statement with \<open>QueryRowContext(...).Scan\<close>
  on its pool and parses the scanned column. The deadline of the call is real time and is
  left to the answer of the backend; the registry \<open>getOrCreateChecker\<close>, which keeps
  one checker per pool, decides nothing but that deadline.
\<close>

definition GetCurrentWALLSN :: "backend \<Rightarrow> db \<Rightarrow> world \<Rightarrow> (error + LSN) \<times> world" where
  "GetCurrentWALLSN be d w =
     (case perform be (OnDB d (OpQueryRowScan ''SELECT pg_current_wal_lsn()'')) w of
        (Inl e, w') \<Rightarrow> (Inl (ErrCurrentWALLSN e), w')
      | (Inr lsnStr, w') \<Rightarrow>
          (case ParseLSN lsnStr of
             Inl pe \<Rightarrow> (Inl (ErrParseMasterLSN pe), w')
           | Inr lsn \<Rightarrow> (Inr lsn, w')))"

definition GetLastReplayLSN :: "backend \<Rightarrow> db \<Rightarrow> world \<Rightarrow> (error + LSN) \<times> world" where
  "GetLastReplayLSN be d w =
     (case perform be (OnDB d (OpQueryRowScan ''SELECT pg_last_wal_replay_lsn()'')) w of
        (Inl e, w') \<Rightarrow> (Inl (ErrLastReplayLSN e), w')
      | (Inr lsnStr, w') \<Rightarrow>
          (case ParseLSN lsnStr of
             Inl pe \<Rightarrow> (Inl (ErrParseReplicaLSN pe), w')
           | Inr lsn \<Rightarrow> (Inr lsn, w')))"

section \<open>The routers\<close>

text \<open>
  \<open>DBProvider\<close> gives the router the pools of the facade; its \<open>LoadBalancer()\<close> is the
  \<open>Resolve\<close> of the backend. A router without a provider has \<open>dbProvider = None\<close>.
\<close>

record provider =
  PrimaryDBs :: "db list"
  ReplicaDBs :: "db list"

record CausalRouter =
  config :: CausalConsistencyConfig
  dbProvider :: "provider option"

definition DefaultCausalConsistencyConfig :: CausalConsistencyConfig where
  "DefaultCausalConsistencyConfig =
     \<lparr>Enabled = False, Level = ReadYourWrites, RequireCookie = True, CookieName = ''pg_min_lsn'',
      CookieMaxAge = 300000000000, FallbackToMaster = True, Timeout = 5000000000\<rparr>"

definition NewCausalRouter :: "provider option \<Rightarrow> CausalConsistencyConfig option \<Rightarrow> CausalRouter" where
  "NewCausalRouter provider0 config0 =
     \<lparr>config = (case config0 of None \<Rightarrow> DefaultCausalConsistencyConfig | Some c \<Rightarrow> c),
      dbProvider = provider0\<rparr>"

text \<open>\<open>shouldUseReplica\<close> returns its three results \<open>(bool, *sql.DB, error)\<close>.\<close>

definition shouldUseReplica ::
  "backend \<Rightarrow> provider \<Rightarrow> LSN \<Rightarrow> world \<Rightarrow> (bool \<times> db \<times> error option) \<times> world" where
  "shouldUseReplica be prov requiredLSN w =
     (let replicas = ReplicaDBs prov in
      if replicas = [] then ((False, nil_db, None), w)
      else if IsZero requiredLSN then
        (let (selected, w1) = lb_Resolve be replicas w in ((True, selected, None), w1))
      else
        (let (selected, w1) = lb_Resolve be replicas w;
             (res, w2) = GetLastReplayLSN be selected w1
         in case res of
              Inr replicaLSN \<Rightarrow>
                if \<not> LessThan replicaLSN requiredLSN then ((True, selected, None), w2)
                else ((False, nil_db, None), w2)
            | Inl err \<Rightarrow> ((False, nil_db, None), w2)))"

definition RouteQuery ::
  "backend \<Rightarrow> CausalRouter \<Rightarrow> go_context \<Rightarrow> QueryType \<Rightarrow> world \<Rightarrow> (error + db) \<times> world" where
  "RouteQuery be r ctx queryType w =
     (if \<not> Enabled (config r) \<or> dbProvider r = None then (Inl ErrCausalNotEnabled, w)
      else case dbProvider r of
        None \<Rightarrow> (Inl ErrCausalNotEnabled, w)
      | Some prov \<Rightarrow>
          (let lsnCtx = GetLSNContext ctx;
               primaries = PrimaryDBs prov;
               replicas = ReplicaDBs prov;
               usePrimary = (\<lambda>w'. case lb_Resolve be primaries w' of (d, w'') \<Rightarrow> (Inr d, w''));
               simpleRead = (\<lambda>w'. if replicas \<noteq> []
                                    then (case lb_Resolve be replicas w' of (d, w'') \<Rightarrow> (Inr d, w''))
                                    else usePrimary w')
           in
           if primaries = [] then (Inl ErrNoPrimaries, w)
           else if (case lsnCtx of None \<Rightarrow> False | Some p \<Rightarrow> ForceMaster (tokens w p))
             then usePrimary w
           else if queryType = QueryTypeWrite then usePrimary w
           else
             (case Level (config r) of
                ReadYourWrites \<Rightarrow>
                  (case lsnCtx of
                     None \<Rightarrow> simpleRead w
                   | Some p \<Rightarrow>
                       if \<not> IsZero (RequiredLSN (tokens w p)) then
                         (case shouldUseReplica be prov (RequiredLSN (tokens w p)) w of
                            ((useReplica, d, Some err), w1) \<Rightarrow> (Inl (ErrReplicaStatus err), w1)
                          | ((useReplica, d, None), w1) \<Rightarrow>
                              if useReplica then (Inr d, w1)
                              else if FallbackToMaster (config r) then usePrimary w1
                              else (Inl ErrNoReplicaCaughtUp, w1))
                       else simpleRead w)
              | NoneCausalConsistency \<Rightarrow> simpleRead w
              | StrongConsistency \<Rightarrow> usePrimary w
              | UndefinedLevel \<Rightarrow>
                  if FallbackToMaster (config r) then usePrimary w
                  else (Inl ErrUnableToRoute, w))))"

text \<open>
  \<open>UpdateLSNAfterWrite\<close>. Its last statement, \<open>ctx = WithLSNContext(ctx, lsnCtx)\<close>,
  assigns the function's own parameter: the new context is bound to \<open>ctx'\<close> below and
  is not part of what the function returns.
\<close>

definition UpdateLSNAfterWrite ::
  "backend \<Rightarrow> CausalRouter \<Rightarrow> go_context \<Rightarrow> db \<Rightarrow> world \<Rightarrow> (error + LSN) \<times> world" where
  "UpdateLSNAfterWrite be r ctx d w =
     (if \<not> Enabled (config r) \<or> d = nil_db then (Inr zero_LSN, w)
      else
        (case GetCurrentWALLSN be d w of
           (Inl err, w1) \<Rightarrow> (Inl (ErrMasterLSNAfterWrite err), w1)
         | (Inr masterLSN, w1) \<Rightarrow>
             (let w2 = w1\<lparr>lastMasterLSN := masterLSN\<rparr>;
                  (p, w3) = (case GetLSNContext ctx of
                               None \<Rightarrow> new_LSNContext (empty_LSNContext\<lparr>TokenLevel := Level (config r)\<rparr>) w2
                             | Some p \<Rightarrow> (p, w2));
                  w4 = w3\<lparr>tokens := (tokens w3)(p := (tokens w3 p)\<lparr>RequiredLSN := masterLSN\<rparr>)\<rparr>;
                  ctx' = WithLSNContext ctx (Some p)
              in (Inr masterLSN, w4))))"

text \<open>\<open>SimpleRouter\<close>, the router without LSN tracking.\<close>

definition SimpleRouter_RouteQuery ::
  "backend \<Rightarrow> provider option \<Rightarrow> QueryType \<Rightarrow> world \<Rightarrow> (error + db) \<times> world" where
  "SimpleRouter_RouteQuery be provider0 queryType w =
     (case provider0 of
        None \<Rightarrow> (Inl ErrNoProvider, w)
      | Some prov \<Rightarrow>
          if PrimaryDBs prov = [] then (Inl ErrNoPrimaries, w)
          else
            (case queryType of
               QueryTypeWrite \<Rightarrow> (case lb_Resolve be (PrimaryDBs prov) w of (d, w') \<Rightarrow> (Inr d, w'))
             | QueryTypeRead \<Rightarrow>
                 if ReplicaDBs prov \<noteq> []
                 then (case lb_Resolve be (ReplicaDBs prov) w of (d, w') \<Rightarrow> (Inr d, w'))
                 else (case lb_Resolve be (PrimaryDBs prov) w of (d, w') \<Rightarrow> (Inr d, w'))
             | QueryTypeUnknown \<Rightarrow>
                 (case lb_Resolve be (PrimaryDBs prov) w of (d, w') \<Rightarrow> (Inr d, w'))))"

definition SimpleRouter_UpdateLSNAfterWrite ::
  "go_context \<Rightarrow> db \<Rightarrow> world \<Rightarrow> (error + LSN) \<times> world" where
  "SimpleRouter_UpdateLSNAfterWrite ctx d w = (Inr zero_LSN, w)"

text \<open>The interface \<open>QueryRouter\<close> and its dynamic dispatch.\<close>

datatype QueryRouter = Causal CausalRouter | Simple "provider option"

definition QueryRouter_RouteQuery ::
  "backend \<Rightarrow> QueryRouter \<Rightarrow> go_context \<Rightarrow> QueryType \<Rightarrow> world \<Rightarrow> (error + db) \<times> world" where
  "QueryRouter_RouteQuery be qr ctx queryType w =
     (case qr of
        Causal r \<Rightarrow> RouteQuery be r ctx queryType w
      | Simple p \<Rightarrow> SimpleRouter_RouteQuery be p queryType w)"

definition QueryRouter_UpdateLSNAfterWrite ::
  "backend \<Rightarrow> QueryRouter \<Rightarrow> go_context \<Rightarrow> db \<Rightarrow> world \<Rightarrow> (error + LSN) \<times> world" where
  "QueryRouter_UpdateLSNAfterWrite be qr ctx d w =
     (case qr of
        Causal r \<Rightarrow> UpdateLSNAfterWrite be r ctx d w
      | Simple p \<Rightarrow> SimpleRouter_UpdateLSNAfterWrite ctx d w)"

section \<open>The facade\<close>

text \<open>
  \<open>DB\<close>, the logical database. Its load balancer is the \<open>Resolve\<close> of the backend;
  \<open>queryTypeChecker\<close> is any implementation of the interface \<open>QueryTypeChecker\<close>;
  \<open>queryRouter\<close> may be \<open>nil\<close>. The placeholder arguments of a statement travel
  with its text.
\<close>

record DB =
  primaries :: "db list"
  replicas :: "db list"
  queryTypeChecker :: "string \<Rightarrow> QueryType"
  queryRouter :: "QueryRouter option"

text \<open>
  \<open>New\<close> panics without a primary (\<open>None\<close> here) and installs a \<open>CausalRouter\<close>,
  whose provider is the new \<open>DB\<close> itself, when the configuration is present and enabled.
\<close>

definition New ::
  "db list \<Rightarrow> db list \<Rightarrow> (string \<Rightarrow> QueryType) \<Rightarrow> CausalConsistencyConfig option \<Rightarrow> DB option" where
  "New PrimaryDBs_opt ReplicaDBs_opt checker CCConfig =
     (if PrimaryDBs_opt = [] then None
      else Some
        \<lparr>primaries = PrimaryDBs_opt, replicas = ReplicaDBs_opt, queryTypeChecker = checker,
         queryRouter =
           (case CCConfig of
              None \<Rightarrow> None
            | Some c \<Rightarrow>
                if Enabled c
                then Some (Causal (NewCausalRouter
                       (Some \<lparr>PrimaryDBs = PrimaryDBs_opt, ReplicaDBs = ReplicaDBs_opt\<rparr>) (Some c)))
                else None)\<rparr>)"

definition ReadWrite :: "backend \<Rightarrow> DB \<Rightarrow> world \<Rightarrow> db \<times> world" where
  "ReadWrite be dbf w = lb_Resolve be (primaries dbf) w"

definition ReadOnly :: "backend \<Rightarrow> DB \<Rightarrow> world \<Rightarrow> db \<times> world" where
  "ReadOnly be dbf w =
     (if replicas dbf = [] then lb_Resolve be (primaries dbf) w
      else lb_Resolve be (replicas dbf) w)"

definition ReadWithLSN :: "backend \<Rightarrow> DB \<Rightarrow> go_context \<Rightarrow> world \<Rightarrow> db \<times> world" where
  "ReadWithLSN be dbf ctx w =
     (case queryRouter dbf of
        None \<Rightarrow> ReadOnly be dbf w
      | Some qr \<Rightarrow>
          (case QueryRouter_RouteQuery be qr ctx QueryTypeRead w of
             (Inl err, w1) \<Rightarrow> ReadOnly be dbf w1
           | (Inr selectedDB, w1) \<Rightarrow> (selectedDB, w1)))"

definition ExecContext ::
  "backend \<Rightarrow> DB \<Rightarrow> go_context \<Rightarrow> string \<Rightarrow> world \<Rightarrow> (error + string) \<times> world" where
  "ExecContext be dbf ctx query w =
     (let (usedDB, w1) = ReadWrite be dbf w
      in perform be (OnDB usedDB (OpExec query)) w1)"

definition connection_failed :: "backend \<Rightarrow> error + string \<Rightarrow> bool" where
  "connection_failed be res = (case res of Inl err \<Rightarrow> isDBConnectionError be err | Inr v \<Rightarrow> False)"

definition QueryContext ::
  "backend \<Rightarrow> DB \<Rightarrow> go_context \<Rightarrow> string \<Rightarrow> world \<Rightarrow> (error + string) \<times> world" where
  "QueryContext be dbf ctx query w =
     (let writeFlag = (queryTypeChecker dbf query = QueryTypeWrite);
          (curDB, w1) =
            (if writeFlag then ReadWrite be dbf w
             else if queryRouter dbf \<noteq> None then ReadWithLSN be dbf ctx w
             else ReadOnly be dbf w);
          (res, w2) = perform be (OnDB curDB (OpQuery query)) w1
      in if connection_failed be res \<and> \<not> writeFlag then
           (let (p, w3) = ReadWrite be dbf w2
            in perform be (OnDB p (OpQuery query)) w3)
         else (res, w2))"

definition QueryRowContext ::
  "backend \<Rightarrow> DB \<Rightarrow> go_context \<Rightarrow> string \<Rightarrow> world \<Rightarrow> (error + string) \<times> world" where
  "QueryRowContext be dbf ctx query w =
     (let writeFlag = (queryTypeChecker dbf query = QueryTypeWrite);
          (curDB, w1) =
            (if writeFlag then ReadWrite be dbf w
             else if queryRouter dbf \<noteq> None then ReadWithLSN be dbf ctx w
             else ReadOnly be dbf w);
          (row, w2) = perform be (OnDB curDB (OpQueryRow query)) w1
      in if connection_failed be row \<and> \<not> writeFlag then
           (let (p, w3) = ReadWrite be dbf w2
            in perform be (OnDB p (OpQueryRow query)) w3)
         else (row, w2))"

text \<open>
  The retry discipline of the query family in the words of the specification, for a
  call that starts in world \<open>w\<close> and ends with outcome \<open>out\<close>. \<open>stmt_targets stmt evs\<close>
  lists the pools on which the statement \<open>stmt\<close> ran among the calls \<open>evs\<close>;
  \<open>probes_only evs\<close> says that the calls \<open>evs\<close> are LSN probes of the adapter. Before
  the statement runs, the call makes no run of it (\<open>evs\<close> is the router's own traffic).
  The statement runs on one pool \<open>d\<close>, a primary for a write. If that run fails with a
  connection error and the statement is not a write, it runs once more, on a primary,
  and that run's answer is the outcome; otherwise the first answer is the outcome.
\<close>

fun stmt_targets :: "op \<Rightarrow> event list \<Rightarrow> db list" where
  "stmt_targets stmt [] = []"
| "stmt_targets stmt (OnDB d x # evs) =
     (if x = stmt then d # stmt_targets stmt evs else stmt_targets stmt evs)"
| "stmt_targets stmt (OnTx d x # evs) = stmt_targets stmt evs"

definition probes_only :: "event list \<Rightarrow> bool" where
  "probes_only evs = (\<forall>ev\<in>set evs. \<exists>d s. ev = OnDB d (OpQueryRowScan s))"

definition read_retry_contract ::
  "backend \<Rightarrow> DB \<Rightarrow> bool \<Rightarrow> op \<Rightarrow> world \<Rightarrow> (error + string) \<times> world \<Rightarrow> bool" where
  "read_retry_contract be dbf write stmt w out =
     (\<exists>evs d. stmt_targets stmt evs = [] \<and>
        (let log = trace w @ evs; first = answer be log (OnDB d stmt)
         in (write \<longrightarrow> d \<in> set (primaries dbf)) \<and>
            (if connection_failed be first \<and> \<not> write
             then \<exists>p\<in>set (primaries dbf).
                    fst out = answer be (log @ [OnDB d stmt]) (OnDB p stmt) \<and>
                    trace (snd out) = log @ [OnDB d stmt, OnDB p stmt]
             else fst out = first \<and> trace (snd out) = log @ [OnDB d stmt])))"

section \<open>Transactions\<close>

text \<open>
  The struct \<open>tx\<close>. Its methods have a pointer receiver and change \<open>writesOccurred\<close>;
  here each method returns the transaction it leaves behind. A \<open>nil\<close> interface value
  is \<open>None\<close>.
\<close>

record tx =
  sourceDB :: db
  tx_queryRouter :: "QueryRouter option"
  tx_queryTypeChecker :: "(string \<Rightarrow> QueryType) option"
  writesOccurred :: bool

definition error_of :: "error + string \<Rightarrow> error option" where
  "error_of res = (case res of Inl err \<Rightarrow> Some err | Inr v \<Rightarrow> None)"

definition BeginTx :: "backend \<Rightarrow> DB \<Rightarrow> go_context \<Rightarrow> world \<Rightarrow> (error + tx) \<times> world" where
  "BeginTx be dbf ctx w =
     (let (source, w1) = ReadWrite be dbf w;
          (stx, w2) = perform be (OnDB source OpBegin) w1
      in case stx of
           Inl err \<Rightarrow> (Inl err, w2)
         | Inr v \<Rightarrow>
             (Inr \<lparr>sourceDB = source, tx_queryRouter = None,
                   tx_queryTypeChecker = Some (queryTypeChecker dbf), writesOccurred = False\<rparr>,
              w2))"

definition trackLSNAfterWrite :: "backend \<Rightarrow> tx \<Rightarrow> go_context \<Rightarrow> error option \<Rightarrow> world \<Rightarrow> world" where
  "trackLSNAfterWrite be t ctx err w =
     (case tx_queryRouter t of
        None \<Rightarrow> w
      | Some qr \<Rightarrow>
          if err = None \<and> sourceDB t \<noteq> nil_db
          then snd (QueryRouter_UpdateLSNAfterWrite be qr ctx (sourceDB t) w)
          else w)"

definition markWriteOperation :: "tx \<Rightarrow> error option \<Rightarrow> tx" where
  "markWriteOperation t err = (if err = None then t\<lparr>writesOccurred := True\<rparr> else t)"

definition Commit :: "backend \<Rightarrow> tx \<Rightarrow> world \<Rightarrow> error option \<times> world" where
  "Commit be t w =
     (let (res, w1) = perform be (OnTx (sourceDB t) OpCommit) w;
          err = error_of res
      in if err = None \<and> writesOccurred t
         then (err, trackLSNAfterWrite be t Background err w1)
         else (err, w1))"

definition Rollback :: "backend \<Rightarrow> tx \<Rightarrow> world \<Rightarrow> error option \<times> world" where
  "Rollback be t w =
     (let (res, w1) = perform be (OnTx (sourceDB t) OpRollback) w in (error_of res, w1))"

definition tx_ExecContext ::
  "backend \<Rightarrow> tx \<Rightarrow> go_context \<Rightarrow> string \<Rightarrow> world \<Rightarrow> ((error + string) \<times> tx) \<times> world" where
  "tx_ExecContext be t ctx query w =
     (let (result, w1) = perform be (OnTx (sourceDB t) (OpExec query)) w
      in ((result, markWriteOperation t (error_of result)), w1))"

definition Contains :: "string \<Rightarrow> string \<Rightarrow> bool" where
  "Contains s substr = list_ex (\<lambda>p. take (length substr) (snd p) = substr) (cursors s)"

definition tx_writeFlag :: "backend \<Rightarrow> tx \<Rightarrow> string \<Rightarrow> bool" where
  "tx_writeFlag be t query =
     (case tx_queryTypeChecker t of
        Some checker \<Rightarrow> checker query = QueryTypeWrite
      | None \<Rightarrow> Contains (strings_ToUpper be query) ''RETURNING'')"

definition tx_QueryContext ::
  "backend \<Rightarrow> tx \<Rightarrow> go_context \<Rightarrow> string \<Rightarrow> world \<Rightarrow> ((error + string) \<times> tx) \<times> world" where
  "tx_QueryContext be t ctx query w =
     (let writeFlag = tx_writeFlag be t query;
          (rows, w1) = perform be (OnTx (sourceDB t) (OpQuery query)) w
      in ((rows, if writeFlag then markWriteOperation t (error_of rows) else t), w1))"

definition tx_QueryRowContext ::
  "backend \<Rightarrow> tx \<Rightarrow> go_context \<Rightarrow> string \<Rightarrow> world \<Rightarrow> ((error + string) \<times> tx) \<times> world" where
  "tx_QueryRowContext be t ctx query w =
     (let writeFlag = tx_writeFlag be t query;
          (row, w1) = perform be (OnTx (sourceDB t) (OpQueryRow query)) w
      in ((row, if writeFlag then markWriteOperation t (error_of row) else t), w1))"

section \<open>The HTTP cookie transport\<close>




text \<open>
  The response: its header lines in the order they were added. \<open>net_http\<close> holds two
  library functions, \<open>Cookie.String\<close> (empty for a cookie it refuses to serialise) and
  the conversion \<open>int(d.Seconds())\<close> of a duration in nanoseconds.
\<close>

record response_writer =
  header :: "(string \<times> string) list"

datatype same_site = SameSiteDefaultMode | SameSiteLaxMode | SameSiteStrictMode | SameSiteNoneMode

record http_cookie =
  cookie_Name :: string
  cookie_Value :: string
  cookie_MaxAge :: int
  cookie_HttpOnly :: bool
  cookie_Secure :: bool
  cookie_Path :: string
  cookie_SameSite :: same_site

record net_http =
  cookie_String :: "http_cookie \<Rightarrow> string"
  duration_seconds :: "int \<Rightarrow> int"

definition http_SetCookie :: "net_http \<Rightarrow> response_writer \<Rightarrow> http_cookie \<Rightarrow> response_writer" where
  "http_SetCookie lib w cookie =
     (let v = cookie_String lib cookie
      in if v \<noteq> [] then w\<lparr>header := header w @ [(''Set-Cookie'', v)]\<rparr> else w)"

definition SetLSNCookie ::
  "net_http \<Rightarrow> response_writer \<Rightarrow> LSN \<Rightarrow> string \<Rightarrow> int \<Rightarrow> bool \<Rightarrow> response_writer" where
  "SetLSNCookie lib w lsn cookieName maxAge secure =
     (if IsZero lsn then w
      else
        (let cookieName1 = (if cookieName = [] then ''pg_min_lsn'' else cookieName);
             maxAge1 = (if maxAge \<le> 0 then 300000000000 else maxAge)
         in http_SetCookie lib w
              \<lparr>cookie_Name = cookieName1, cookie_Value = LSN_String lsn,
               cookie_MaxAge = duration_seconds lib maxAge1, cookie_HttpOnly = True,
               cookie_Secure = secure, cookie_Path = ''/'', cookie_SameSite = SameSiteLaxMode\<rparr>))"

text \<open>
  \<open>HTTPMiddleware\<close> and the response wrapper it hands to the next handler. The handler
  \<open>next\<close> receives the wrapper, the request with its new context, and the world.
\<close>

record HTTPMiddleware =
  router :: QueryRouter
  cookieName :: string
  cookieMaxAge :: int
  cookieSecure :: bool




section \<open>A sample backend for the worked examples\<close>

text \<open>
  The examples run on a backend whose load balancer is round robin, whose pools answer
  each call by a fixed script, and for which driver error 1 is the connection error.
  The world starts empty.
\<close>

definition scripted :: "(event \<Rightarrow> error + string) \<Rightarrow> backend" where
  "scripted f =
     \<lparr>Resolve = RoundRobin, answer = (\<lambda>log ev. f ev),
      isDBConnectionError = (\<lambda>e. e = DriverError 1), strings_ToUpper = map to_upper\<rparr>"

definition initial_world :: world where
  "initial_world =
     \<lparr>tokens = (\<lambda>p. empty_LSNContext), next_token = 0, lb_calls = 0, trace = [],
      lastMasterLSN = zero_LSN\<rparr>"

definition ryw_config :: CausalConsistencyConfig where
  "ryw_config = DefaultCausalConsistencyConfig\<lparr>Enabled := True\<rparr>"

text \<open>One primary (pool 1) and one replica (pool 2).\<close>

definition one_one :: provider where
  "one_one = \<lparr>PrimaryDBs = [1], ReplicaDBs = [2]\<rparr>"

text \<open>A context holding the token at address 0, and a world whose token requires \<open>lsn\<close>.\<close>

definition token_ctx :: go_context where
  "token_ctx = \<lparr>lsn_context = Some 0\<rparr>"

definition world_with_token :: "LSN \<Rightarrow> world" where
  "world_with_token lsn =
     initial_world\<lparr>tokens := (\<lambda>p. empty_LSNContext\<lparr>RequiredLSN := lsn\<rparr>), next_token := 1\<rparr>"

text \<open>
  The facade that \<open>New\<close> builds for these pools with the default classifier and
  read-your-writes consistency enabled.
\<close>

definition causal_db :: DB where
  "causal_db =
     \<lparr>primaries = [1], replicas = [2], queryTypeChecker = Check,
      queryRouter = Some (Causal \<lparr>config = ryw_config, dbProvider = Some one_one\<rparr>)\<rparr>"

section \<open>Properties of the LSN value type\<close>

lemma Split_not_Nil: "Split sep s \<noteq> []"
  by (induction s) (auto split: list.splits)

lemma Split_two: "Split sep s = [a, b] \<Longrightarrow> s = a @ sep # b"
proof (induction s arbitrary: a)
  case Nil
  then show ?case by simp
next
  case (Cons c cs)
  show ?case
  proof (cases "c = sep")
    case True
    with Cons.prems have a: "a = []" and sp: "Split sep cs = [b]" by auto
    have "cs = b" using sp
    proof (induction cs arbitrary: b)
      case Nil
      then show ?case by simp
    next
      case (Cons d ds)
      then show ?case using Split_not_Nil [of sep ds] by (auto split: if_splits list.splits)
    qed
    with a True show ?thesis by simp
  next
    case False
    with Cons.prems obtain p where "Split sep cs = [p, b]" and "a = c # p"
      by (auto split: list.splits)
    with Cons.IH show ?thesis by simp
  qed
qed

lemma hex_value_cases:
  assumes "hex_value c = Some d"
  shows "c \<in> set ''0123456789abcdefABCDEF''"
proof -
  let ?n = "of_char c :: nat"
  have c: "c = char_of ?n" by simp
  from assms have "(48 \<le> ?n \<and> ?n \<le> 57) \<or> (97 \<le> ?n \<and> ?n \<le> 102) \<or> (65 \<le> ?n \<and> ?n \<le> 70)"
    by (auto simp: hex_value_def Let_def split: if_splits)
  then have "?n = 48 \<or> ?n = 49 \<or> ?n = 50 \<or> ?n = 51 \<or> ?n = 52 \<or> ?n = 53 \<or> ?n = 54
      \<or> ?n = 55 \<or> ?n = 56 \<or> ?n = 57 \<or> ?n = 97 \<or> ?n = 98 \<or> ?n = 99 \<or> ?n = 100
      \<or> ?n = 101 \<or> ?n = 102 \<or> ?n = 65 \<or> ?n = 66 \<or> ?n = 67 \<or> ?n = 68 \<or> ?n = 69
      \<or> ?n = 70"
    by arith
  then have "?n \<in> {48,49,50,51,52,53,54,55,56,57,97,98,99,100,101,102,65,66,67,68,69,70}"
    by blast
  then have "char_of ?n \<in> char_of ` {48::nat,49,50,51,52,53,54,55,56,57,97,98,99,100,101,102,65,66,67,68,69,70}"
    by (rule imageI)
  with c have "c \<in> char_of ` {48::nat,49,50,51,52,53,54,55,56,57,97,98,99,100,101,102,65,66,67,68,69,70}"
    by simp
  then show ?thesis by (simp add: char_of_def bit_Suc_0_iff)
qed

lemma hex_digit_upper:
  assumes "hex_value c = Some d"
  shows "d < 16 \<and> hex_digit d = to_upper c \<and> (d = 0 \<longleftrightarrow> c = CHR ''0'')"
  using hex_value_cases [OF assms] assms
  by (auto simp: hex_value_def hex_digit_def to_upper_def Let_def char_of_def bit_Suc_0_iff)


lemma ParseUint_loop_snoc:
  "ParseUint_loop n (ds @ [c]) =
     (case ParseUint_loop n ds of
        None \<Rightarrow> None
      | Some m \<Rightarrow>
          (case hex_value c of
             None \<Rightarrow> None
           | Some d \<Rightarrow> if m * 16 + d > 4294967295 then None else Some (m * 16 + d)))"
  by (induction ds arbitrary: n) (auto simp: Let_def split: option.splits)

lemma format_X_digit: "d < 16 \<Longrightarrow> format_X d = [hex_digit d]"
  by (simp add: format_X.simps)

lemma format_X_step:
  "0 < m \<Longrightarrow> d < 16 \<Longrightarrow> format_X (m * 16 + d) = format_X m @ [hex_digit d]"
  by (subst format_X.simps) simp

lemma no_leading_zeros_snoc:
  "ds \<noteq> [] \<Longrightarrow> no_leading_zeros (ds @ [c]) \<Longrightarrow> hd ds \<noteq> CHR ''0''"
  by (cases ds) (auto simp: no_leading_zeros_def)

lemma ParseUint_loop_segment:
  "list_all is_hex ds \<Longrightarrow> length ds \<le> 8 \<Longrightarrow>
   \<exists>v. ParseUint_loop 0 ds = Some v \<and> v < 16 ^ length ds
     \<and> (ds \<noteq> [] \<and> hd ds \<noteq> CHR ''0'' \<longrightarrow> 0 < v)
     \<and> (ds \<noteq> [] \<and> no_leading_zeros ds \<longrightarrow> format_X v = map to_upper ds)"
proof (induction ds rule: rev_induct)
  case Nil
  then show ?case by simp
next
  case (snoc c ds)
  from snoc.prems have hexds: "list_all is_hex ds" and len: "length ds \<le> 7" and hc: "is_hex c"
    by auto
  from hc obtain d where d: "hex_value c = Some d" by (auto simp: is_hex_def)
  from hex_digit_upper [OF d] have d16: "d < 16" and dig: "hex_digit d = to_upper c"
    and dz: "d = 0 \<longleftrightarrow> c = CHR ''0''" by auto
  from snoc.IH hexds len obtain v where v: "ParseUint_loop 0 ds = Some v"
    and vb: "v < 16 ^ length ds"
    and vpos: "ds \<noteq> [] \<and> hd ds \<noteq> CHR ''0'' \<longrightarrow> 0 < v"
    and vfmt: "ds \<noteq> [] \<and> no_leading_zeros ds \<longrightarrow> format_X v = map to_upper ds"
    by auto
  let ?w = "v * 16 + d"
  have "?w < 16 ^ Suc (length ds)" using vb d16 by simp
  moreover have "(16::nat) ^ Suc (length ds) \<le> 16 ^ 8"
    using len by (intro power_increasing) auto
  ultimately have wb: "?w < 16 ^ Suc (length ds)" and w32: "?w \<le> 4294967295" by auto
  have parse: "ParseUint_loop 0 (ds @ [c]) = Some ?w"
    using v d w32 by (simp add: ParseUint_loop_snoc)
  have pos: "hd (ds @ [c]) \<noteq> CHR ''0'' \<longrightarrow> 0 < ?w"
  proof (cases ds)
    case Nil
    then show ?thesis using dz by auto
  next
    case (Cons a as)
    then show ?thesis using vpos by auto
  qed
  have fmt: "no_leading_zeros (ds @ [c]) \<longrightarrow> format_X ?w = map to_upper (ds @ [c])"
  proof
    assume nlz: "no_leading_zeros (ds @ [c])"
    show "format_X ?w = map to_upper (ds @ [c])"
    proof (cases "ds = []")
      case True
      then have "v = 0" using v by simp
      then show ?thesis using True d16 dig by (simp add: format_X_digit)
    next
      case False
      from no_leading_zeros_snoc [OF False nlz] have h: "hd ds \<noteq> CHR ''0''" .
      then have "no_leading_zeros ds" using False by (simp add: no_leading_zeros_def)
      with vfmt False have "format_X v = map to_upper ds" by simp
      moreover have "0 < v" using vpos False h by simp
      ultimately show ?thesis using d16 dig by (simp add: format_X_step)
    qed
  qed
  show ?case using parse wb pos fmt by simp
qed

lemma ParseUint_16_32_segment:
  assumes "hex_segment ds" "no_leading_zeros ds"
  shows "\<exists>v. ParseUint_16_32 ds = Some v \<and> v < 4294967296 \<and> format_X v = map to_upper ds"
proof -
  from assms(1) have h: "list_all is_hex ds" and l: "length ds \<le> 8" and ne: "ds \<noteq> []"
    by (auto simp: hex_segment_def)
  from ParseUint_loop_segment [OF h l] obtain v where v: "ParseUint_loop 0 ds = Some v"
    and vb: "v < 16 ^ length ds"
    and vf: "ds \<noteq> [] \<and> no_leading_zeros ds \<longrightarrow> format_X v = map to_upper ds" by blast
  have "(16::nat) ^ length ds \<le> 16 ^ 8" using l by (intro power_increasing) auto
  with vb have "v < 4294967296" by simp
  with v vf ne assms(2) show ?thesis by (simp add: ParseUint_16_32_def)
qed

lemma unat_of_nat_32: "v < 4294967296 \<Longrightarrow> unat (of_nat v :: 32 word) = v"
  by (simp add: unat_of_nat)

lemma to_upper_solidus: "to_upper (CHR ''/'') = CHR ''/''"
  by (simp add: to_upper_def)

text \<open>
  C6, as amended. For every LSN string whose two segments have 1 to 8 hexadecimal
  digits and no superfluous leading zero, parsing succeeds and serialising the parsed
  value gives the string back with its letters in upper case.
\<close>

theorem lsn_roundtrip_canonical:
  assumes "canonical_lsn_string s"
  shows "map_sum id LSN_String (ParseLSN s) = Inr (map to_upper s)"
proof -
  from assms obtain a b where sp: "Split (CHR ''/'') s = [a, b]"
    and ha: "hex_segment a" "no_leading_zeros a" and hb: "hex_segment b" "no_leading_zeros b"
    by (auto simp: canonical_lsn_string_def split: list.splits)
  from Split_two [OF sp] have s: "s = a @ CHR ''/'' # b" .
  from ParseUint_16_32_segment [OF ha] obtain u where u: "ParseUint_16_32 a = Some u"
    "u < 4294967296" "format_X u = map to_upper a" by blast
  from ParseUint_16_32_segment [OF hb] obtain l where l: "ParseUint_16_32 b = Some l"
    "l < 4294967296" "format_X l = map to_upper b" by blast
  have "ParseLSN s = Inr \<lparr>Upper = of_nat u, Lower = of_nat l\<rparr>"
    using sp u(1) l(1) s by (simp add: ParseLSN_def)
  then show ?thesis
    using u l s by (simp add: LSN_String_def unat_of_nat_32 to_upper_solidus)
qed

theorem lsn_roundtrip_canonical_witness:
  "canonical_lsn_string ''1/a0b1c2'' \<and>
   map_sum id LSN_String (ParseLSN ''1/a0b1c2'') = Inr ''1/A0B1C2''"
proof -
  have c: "canonical_lsn_string ''1/a0b1c2''" by code_simp
  have u: "map to_upper ''1/a0b1c2'' = ''1/A0B1C2''" by code_simp
  show ?thesis using c lsn_roundtrip_canonical [OF c] u by simp
qed

text \<open>
  The claim as stated admits leading zeros. \<open>00/1\<close> is such a string; it parses to
  \<open>0/1\<close>, whose serialisation is \<open>0/1\<close> and not \<open>00/1\<close>.
\<close>

theorem lsn_roundtrip_leading_zero_counterexample:
  "valid_lsn_string ''00/1'' \<and>
   map_sum id LSN_String (ParseLSN ''00/1'') = Inr ''0/1'' \<and>
   map to_upper ''00/1'' = ''00/1'' \<and>
   map_sum id LSN_String (ParseLSN ''00/1'') \<noteq> Inr (map to_upper ''00/1'')"
proof -
  have a: "valid_lsn_string ''00/1''" by code_simp
  have b: "map_sum id LSN_String (ParseLSN ''00/1'') = Inr ''0/1''"
    by (simp add: ParseLSN_def ParseUint_16_32_def hex_value_def LSN_String_def format_X.simps
        hex_digit_def)
  have c: "map to_upper ''00/1'' = ''00/1''" by code_simp
  have d: "map_sum id LSN_String (ParseLSN ''00/1'') \<noteq> Inr (map to_upper ''00/1'')"
    unfolding b c by simp
  show ?thesis using a b c d by blast
qed

section \<open>The classifier's contract\<close>

lemma set_cursors: "set (cursors s) = {(a, b). s = a @ b}"
proof (rule set_eqI, rule iffI)
  fix x assume "x \<in> set (cursors s)"
  then have "x \<in> (\<lambda>i. (take i s, drop i s)) ` set [0..<Suc (length s)]"
    unfolding cursors_def set_map .
  then obtain i where "x = (take i s, drop i s)" by (rule imageE)
  then show "x \<in> {(a, b). s = a @ b}" by simp
next
  fix x assume "x \<in> {(a, b). s = a @ b}"
  then obtain a b where x: "x = (a, b)" and s: "s = a @ b" by auto
  have "x = (take (length a) s, drop (length a) s)" using x s by simp
  moreover have "length a \<in> set [0..<Suc (length s)]" using s by simp
  ultimately show "x \<in> set (cursors s)" unfolding cursors_def set_map by (rule image_eqI)
qed

lemma MatchString_iff:
  "MatchString r s \<longleftrightarrow> (\<exists>a b. s = a @ b \<and> matches r (a, b) \<noteq> [])"
  by (auto simp: MatchString_def list_ex_iff set_cursors)

lemma matches_literal:
  "set (matches (literal w) (pre, s)) = {(pre @ m, rest) | m rest. s = m @ rest \<and> ci_equal w m}"
proof (induction w arbitrary: pre s)
  case Nil
  then show ?case by auto
next
  case (Cons c cs)
  have "set (matches (literal (c # cs)) (pre, s)) =
        (\<Union>a\<in>{a \<in> set (fold_bytes c). take (length a) s = a}.
            set (matches (literal cs) (pre @ a, drop (length a) s)))"
    by auto
  also have "\<dots> = (\<Union>a\<in>{a \<in> set (fold_bytes c). take (length a) s = a}.
            {(pre @ a @ m, rest) | m rest. drop (length a) s = m @ rest \<and> ci_equal cs m})"
    by (simp add: Cons.IH)
  also have "\<dots> = {(pre @ m, rest) | m rest. s = m @ rest \<and> ci_equal (c # cs) m}"
  proof (rule set_eqI, rule iffI)
    fix x assume "x \<in> (\<Union>a\<in>{a \<in> set (fold_bytes c). take (length a) s = a}.
            {(pre @ a @ m, rest) | m rest. drop (length a) s = m @ rest \<and> ci_equal cs m})"
    then obtain a m rest where a: "a \<in> set (fold_bytes c)" "take (length a) s = a"
      and x: "x = (pre @ a @ m, rest)" and d: "drop (length a) s = m @ rest" and ci: "ci_equal cs m"
      by auto
    have s: "s = (a @ m) @ rest" using a(2) d by (metis append_assoc append_take_drop_id)
    have "take (length a) (a @ m) = a \<and> ci_equal cs (drop (length a) (a @ m))"
      using ci by simp
    then have "ci_equal (c # cs) (a @ m)" using a(1) unfolding ci_equal.simps list_ex_iff
      by (rule_tac x = a in bexI)
    with s x show "x \<in> {(pre @ m, rest) | m rest. s = m @ rest \<and> ci_equal (c # cs) m}" by blast
  next
    fix x assume "x \<in> {(pre @ m, rest) | m rest. s = m @ rest \<and> ci_equal (c # cs) m}"
    then obtain m rest where x: "x = (pre @ m, rest)" and s: "s = m @ rest"
      and ci: "ci_equal (c # cs) m" by blast
    from ci obtain a where a: "a \<in> set (fold_bytes c)" "take (length a) m = a"
      "ci_equal cs (drop (length a) m)" by (auto simp: list_ex_iff)
    have la: "length a \<le> length m" using a(2) by (metis length_take min.cobounded1)
    have m: "m = a @ drop (length a) m" using a(2) by (metis append_take_drop_id)
    have "take (length a) s = a" using s la a(2) by simp
    moreover have "drop (length a) s = drop (length a) m @ rest" using s la by simp
    ultimately show "x \<in> (\<Union>a\<in>{a \<in> set (fold_bytes c). take (length a) s = a}.
            {(pre @ a @ m, rest) | m rest. drop (length a) s = m @ rest \<and> ci_equal cs m})"
      using a x m by (smt (verit) UN_iff mem_Collect_eq)
  qed
  finally show ?case .
qed

lemma matches_Star_Space:
  "set (matches (Star Space) (pre, s)) =
     {(pre @ ws, rest) | ws rest. s = ws @ rest \<and> list_all is_space ws}"
proof (induction s arbitrary: pre)
  case Nil
  then show ?case by (subst matches.simps(6)) auto
next
  case (Cons c cs)
  show ?case
  proof (cases "is_space c")
    case True
    have "set (matches (Star Space) (pre, c # cs)) =
          insert (pre, c # cs) (set (matches (Star Space) (pre @ [c], cs)))"
      using True by (subst matches.simps(6)) simp
    also have "\<dots> = insert (pre, c # cs)
          {(pre @ c # ws, rest) | ws rest. cs = ws @ rest \<and> list_all is_space ws}"
      by (simp add: Cons.IH)
    also have "\<dots> = {(pre @ ws, rest) | ws rest. c # cs = ws @ rest \<and> list_all is_space ws}"
    proof (rule set_eqI, rule iffI)
      fix x assume "x \<in> insert (pre, c # cs)
          {(pre @ c # ws, rest) | ws rest. cs = ws @ rest \<and> list_all is_space ws}"
      then consider "x = (pre @ [], c # cs)"
        | ws rest where "x = (pre @ c # ws, rest)" "cs = ws @ rest" "list_all is_space ws"
        by auto
      then show "x \<in> {(pre @ ws, rest) | ws rest. c # cs = ws @ rest \<and> list_all is_space ws}"
      proof cases
        case 1
        then show ?thesis by force
      next
        case 2
        then have "c # cs = (c # ws) @ rest \<and> list_all is_space (c # ws)" using True by simp
        with 2(1) show ?thesis by blast
      qed
    next
      fix x assume "x \<in> {(pre @ ws, rest) | ws rest. c # cs = ws @ rest \<and> list_all is_space ws}"
      then obtain ws rest where x: "x = (pre @ ws, rest)" and s: "c # cs = ws @ rest"
        and sp: "list_all is_space ws" by blast
      show "x \<in> insert (pre, c # cs)
          {(pre @ c # ws, rest) | ws rest. cs = ws @ rest \<and> list_all is_space ws}"
      proof (cases ws)
        case Nil
        with x s show ?thesis by simp
      next
        case (Cons d ds)
        with s sp have "d = c" "cs = ds @ rest" "list_all is_space ds" by auto
        with x Cons show ?thesis by auto
      qed
    qed
    finally show ?thesis .
  next
    case False
    have "set (matches (Star Space) (pre, c # cs)) = {(pre, c # cs)}"
      using False by (subst matches.simps(6)) simp
    also have "\<dots> = {(pre @ ws, rest) | ws rest. c # cs = ws @ rest \<and> list_all is_space ws}"
    proof (rule set_eqI, rule iffI)
      fix x assume "x \<in> {(pre, c # cs)}"
      then have "x = (pre @ [], c # cs)" by simp
      then show "x \<in> {(pre @ ws, rest) | ws rest. c # cs = ws @ rest \<and> list_all is_space ws}"
        by force
    next
      fix x assume "x \<in> {(pre @ ws, rest) | ws rest. c # cs = ws @ rest \<and> list_all is_space ws}"
      then obtain ws rest where x: "x = (pre @ ws, rest)" and s: "c # cs = ws @ rest"
        and sp: "list_all is_space ws" by blast
      have "ws = []"
      proof (cases ws)
        case Nil then show ?thesis .
      next
        case (Cons d ds)
        with s sp False show ?thesis by auto
      qed
      with x s show "x \<in> {(pre, c # cs)}" by simp
    qed
    finally show ?thesis .
  qed
qed

lemma matches_alternatives:
  "set (matches (alternatives r rs) p) = (\<Union>x\<in>set (r # rs). set (matches x p))"
  by (induction r rs rule: alternatives.induct) auto


lemma in_matches_Concat:
  "x \<in> set (matches (Concat r1 r2) p) \<longleftrightarrow> (\<exists>p'\<in>set (matches r1 p). x \<in> set (matches r2 p'))"
  by auto

lemma in_matches_BeginText: "x \<in> set (matches BeginText p) \<longleftrightarrow> fst p = [] \<and> x = p"
  by auto

lemma in_matches_WordBoundary: "x \<in> set (matches WordBoundary p) \<longleftrightarrow> at_word_boundary p \<and> x = p"
  by auto

lemma ci_equal_hd:
  assumes "ci_equal (c # cs) m" and "\<forall>a\<in>set (fold_bytes c). a \<noteq> [] \<and> P (hd a)"
  shows "m \<noteq> [] \<and> P (hd m)"
proof -
  from assms(1) obtain a where a: "a \<in> set (fold_bytes c)" "take (length a) m = a"
    by (auto simp: list_ex_iff)
  with assms(2) have ne: "a \<noteq> []" and P: "P (hd a)" by auto
  from a(2) ne have "m \<noteq> []" by auto
  moreover have "hd m = hd a" using a(2) ne by (metis hd_take length_greater_0_conv)
  ultimately show ?thesis using P by simp
qed

lemma ci_equal_last:
  assumes "ci_equal w m" and "w \<noteq> []"
    and "\<forall>a\<in>set (fold_bytes (last w)). a \<noteq> [] \<and> P (last a)"
  shows "m \<noteq> [] \<and> P (last m)"
  using assms
proof (induction w arbitrary: m)
  case Nil
  then show ?case by simp
next
  case (Cons c cs)
  from Cons.prems(1) obtain a where a: "a \<in> set (fold_bytes c)" "take (length a) m = a"
    "ci_equal cs (drop (length a) m)" by (auto simp: list_ex_iff)
  show ?case
  proof (cases "cs = []")
    case True
    with a(3) have "drop (length a) m = []" by simp
    with a(2) have "m = a" by (metis append_Nil2 append_take_drop_id)
    with Cons.prems(3) True a(1) show ?thesis by simp
  next
    case False
    with Cons.prems(3) have "\<forall>a\<in>set (fold_bytes (last cs)). a \<noteq> [] \<and> P (last a)" by simp
    from Cons.IH [OF a(3) False this]
    have d: "drop (length a) m \<noteq> []" and P: "P (last (drop (length a) m))" by auto
    from d have "length a < length m" by simp
    then have "last (drop (length a) m) = last m" by (rule last_drop)
    with d P show ?thesis by auto
  qed
qed

lemma fold_bytes_plain_all:
  "list_all (\<lambda>c. list_all (\<lambda>a. a \<noteq> [] \<and> is_word_char (hd a) \<and> is_word_char (last a))
      (fold_bytes c)) ''IUDMTREG''"
  by (simp add: fold_bytes_def to_upper_def to_lower_def is_word_char_def Let_def char_of_def
      bit_Suc_0_iff)

lemma fold_bytes_plain:
  "c \<in> set ''IUDMTREG'' \<Longrightarrow>
   \<forall>a\<in>set (fold_bytes c). a \<noteq> [] \<and> is_word_char (hd a) \<and> is_word_char (last a)"
  using fold_bytes_plain_all unfolding list_all_iff by blast

lemma keyword_letters_all:
  "list_all (\<lambda>v. v \<noteq> [] \<and> hd v \<in> set ''IUDMTREG'' \<and> last v \<in> set ''IUDMTREG'')
     (''RETURNING'' # write_verbs)"
  by (simp add: write_verbs_def)

lemma keyword_letters:
  "v \<in> set write_verbs \<or> v = ''RETURNING'' \<Longrightarrow>
   v \<noteq> [] \<and> hd v \<in> set ''IUDMTREG'' \<and> last v \<in> set ''IUDMTREG''"
proof -
  assume "v \<in> set write_verbs \<or> v = ''RETURNING''"
  then have "v \<in> set (''RETURNING'' # write_verbs)" by (simp only: set_simps insert_iff) blast
  with keyword_letters_all show ?thesis unfolding list_all_iff by (rule bspec)
qed

lemma keyword_edges:
  assumes "v \<in> set write_verbs \<or> v = ''RETURNING''" and "ci_equal v m"
  shows "m \<noteq> [] \<and> is_word_char (hd m) \<and> is_word_char (last m)"
proof -
  from keyword_letters [OF assms(1)] have ne: "v \<noteq> []" and c: "hd v \<in> set ''IUDMTREG''"
    and l: "last v \<in> set ''IUDMTREG''" by blast+
  from ne obtain c0 cs where v: "v = c0 # cs" by (cases v) auto
  have h: "\<forall>a\<in>set (fold_bytes c0). a \<noteq> [] \<and> is_word_char (hd a)"
    using fold_bytes_plain [OF c] v by simp
  have t: "\<forall>a\<in>set (fold_bytes (last v)). a \<noteq> [] \<and> is_word_char (last a)"
    using fold_bytes_plain [OF l] by blast
  from ci_equal_hd [OF assms(2) [unfolded v] h] have "m \<noteq> [] \<and> is_word_char (hd m)" .
  moreover from ci_equal_last [OF assms(2) ne t] have "is_word_char (last m)" by simp
  ultimately show ?thesis by simp
qed

lemma boundary_after_keyword:
  assumes "m \<noteq> []" "is_word_char (last m)"
  shows "at_word_boundary (pre @ m, rest) \<longleftrightarrow> word_ends rest"
  using assms by (auto simp: at_word_boundary_def word_ends_def)

lemma boundary_before_keyword:
  assumes "m \<noteq> []" "is_word_char (hd m)"
  shows "at_word_boundary (pre, m @ rest) \<longleftrightarrow> word_starts pre"
  using assms by (auto simp: at_word_boundary_def word_starts_def)

lemma verb_regexes:
  "set (literal ''INSERT'' # map literal [''UPDATE'', ''DELETE'', ''MERGE'', ''TRUNCATE'', ''REPLACE''])
     = literal ` set write_verbs"
  by (simp add: write_verbs_def)

lemma in_matches_verbBranch:
  "x \<in> set (matches verbBranch (a, b)) \<longleftrightarrow>
     a = [] \<and> (\<exists>ws m rest v. b = ws @ m @ rest \<and> list_all is_space ws \<and> v \<in> set write_verbs
        \<and> ci_equal v m \<and> word_ends rest \<and> x = (ws @ m, rest))"
proof
  assume "x \<in> set (matches verbBranch (a, b))"
  then obtain p0 p1 p2 where p0: "p0 \<in> set (matches BeginText (a, b))"
    and p1: "p1 \<in> set (matches (Star Space) p0)"
    and p2: "p2 \<in> set (matches (alternatives (literal ''INSERT'')
                  (map literal [''UPDATE'', ''DELETE'', ''MERGE'', ''TRUNCATE'', ''REPLACE''])) p1)"
    and x: "x \<in> set (matches WordBoundary p2)"
    unfolding verbBranch_def in_matches_Concat by blast
  from p0 have a: "a = []" and p0': "p0 = ([], b)" by (auto split: if_splits)
  from p1 obtain ws rest1 where ws: "p1 = (ws, rest1)" "b = ws @ rest1" "list_all is_space ws"
    unfolding p0' matches_Star_Space by auto
  from p2 obtain v where v: "v \<in> set write_verbs" and pv: "p2 \<in> set (matches (literal v) p1)"
    unfolding matches_alternatives verb_regexes by blast
  from pv obtain m rest where m: "p2 = (ws @ m, rest)" "rest1 = m @ rest" "ci_equal v m"
    unfolding ws(1) matches_literal by auto
  from keyword_edges [OF _ m(3)] v have e: "m \<noteq> []" "is_word_char (last m)" by auto
  from x have "at_word_boundary p2" and xp: "x = p2" unfolding in_matches_WordBoundary by auto
  then have "word_ends rest" using boundary_after_keyword [OF e] m(1) by simp
  with a ws m v xp show "a = [] \<and> (\<exists>ws m rest v. b = ws @ m @ rest \<and> list_all is_space ws
        \<and> v \<in> set write_verbs \<and> ci_equal v m \<and> word_ends rest \<and> x = (ws @ m, rest))"
    by blast
next
  assume "a = [] \<and> (\<exists>ws m rest v. b = ws @ m @ rest \<and> list_all is_space ws
        \<and> v \<in> set write_verbs \<and> ci_equal v m \<and> word_ends rest \<and> x = (ws @ m, rest))"
  then obtain ws m rest v where a: "a = []" and b: "b = ws @ m @ rest"
    and sp: "list_all is_space ws" and v: "v \<in> set write_verbs" and ci: "ci_equal v m"
    and we: "word_ends rest" and x: "x = (ws @ m, rest)" by blast
  have p0: "([], b) \<in> set (matches BeginText (a, b))" using a by simp
  have p1: "(ws, m @ rest) \<in> set (matches (Star Space) ([], b))"
    unfolding matches_Star_Space using b sp by auto
  have "(ws @ m, rest) \<in> set (matches (literal v) (ws, m @ rest))"
    unfolding matches_literal using ci by auto
  then have p2: "(ws @ m, rest) \<in> set (matches (alternatives (literal ''INSERT'')
                  (map literal [''UPDATE'', ''DELETE'', ''MERGE'', ''TRUNCATE'', ''REPLACE'']))
                  (ws, m @ rest))"
    unfolding matches_alternatives verb_regexes using v by blast
  from keyword_edges [OF _ ci] v have e: "m \<noteq> []" "is_word_char (last m)" by auto
  have "at_word_boundary (ws @ m, rest)" using boundary_after_keyword [OF e] we by simp
  then have p3: "x \<in> set (matches WordBoundary (ws @ m, rest))"
    unfolding in_matches_WordBoundary using x by simp
  show "x \<in> set (matches verbBranch (a, b))"
    unfolding verbBranch_def in_matches_Concat using p0 p1 p2 p3 by blast
qed

lemma in_matches_returningBranch:
  "x \<in> set (matches returningBranch (a, b)) \<longleftrightarrow>
     (\<exists>m rest. b = m @ rest \<and> ci_equal ''RETURNING'' m \<and> word_starts a \<and> word_ends rest
        \<and> x = (a @ m, rest))"
proof
  assume "x \<in> set (matches returningBranch (a, b))"
  then obtain p0 p1 where p0: "p0 \<in> set (matches WordBoundary (a, b))"
    and p1: "p1 \<in> set (matches (literal ''RETURNING'') p0)"
    and x: "x \<in> set (matches WordBoundary p1)"
    unfolding returningBranch_def in_matches_Concat by blast
  from p0 have b0: "at_word_boundary (a, b)" and p0': "p0 = (a, b)"
    unfolding in_matches_WordBoundary by auto
  from p1 obtain m rest where m: "p1 = (a @ m, rest)" "b = m @ rest" "ci_equal ''RETURNING'' m"
    unfolding p0' matches_literal by auto
  from keyword_edges [OF _ m(3)] have e: "m \<noteq> []" "is_word_char (hd m)" "is_word_char (last m)"
    by auto
  from x have b1: "at_word_boundary p1" and xp: "x = p1" unfolding in_matches_WordBoundary by auto
  have "word_starts a" using boundary_before_keyword [OF e(1,2)] b0 m(2) by simp
  moreover have "word_ends rest" using boundary_after_keyword [OF e(1,3)] b1 m(1) by simp
  ultimately show "\<exists>m rest. b = m @ rest \<and> ci_equal ''RETURNING'' m \<and> word_starts a
      \<and> word_ends rest \<and> x = (a @ m, rest)"
    using m xp by blast
next
  assume "\<exists>m rest. b = m @ rest \<and> ci_equal ''RETURNING'' m \<and> word_starts a \<and> word_ends rest
        \<and> x = (a @ m, rest)"
  then obtain m rest where b: "b = m @ rest" and ci: "ci_equal ''RETURNING'' m"
    and ws: "word_starts a" and we: "word_ends rest" and x: "x = (a @ m, rest)" by blast
  from keyword_edges [OF _ ci] have e: "m \<noteq> []" "is_word_char (hd m)" "is_word_char (last m)"
    by auto
  have p0: "(a, b) \<in> set (matches WordBoundary (a, b))"
    unfolding in_matches_WordBoundary using boundary_before_keyword [OF e(1,2)] ws b by simp
  have p1: "(a @ m, rest) \<in> set (matches (literal ''RETURNING'') (a, b))"
    unfolding matches_literal using b ci by auto
  have p2: "x \<in> set (matches WordBoundary (a @ m, rest))"
    unfolding in_matches_WordBoundary using boundary_after_keyword [OF e(1,3)] we x by simp
  show "x \<in> set (matches returningBranch (a, b))"
    unfolding returningBranch_def in_matches_Concat using p0 p1 p2 by blast
qed

lemma nonempty_iff: "xs \<noteq> [] \<longleftrightarrow> (\<exists>x. x \<in> set xs)"
  by (cases xs) auto

lemma verb_branch_iff: "MatchString verbBranch q \<longleftrightarrow> first_token_is_verb q"
proof
  assume "MatchString verbBranch q"
  then obtain a b x where "q = a @ b" "x \<in> set (matches verbBranch (a, b))"
    unfolding MatchString_iff nonempty_iff by blast
  then show "first_token_is_verb q"
    unfolding in_matches_verbBranch first_token_is_verb_def by auto
next
  assume "first_token_is_verb q"
  then obtain ws m rest v where q: "q = ws @ m @ rest" and r: "list_all is_space ws"
    "v \<in> set write_verbs" "ci_equal v m" "word_ends rest"
    unfolding first_token_is_verb_def by blast
  then have "(ws @ m, rest) \<in> set (matches verbBranch ([], q))"
    unfolding in_matches_verbBranch by blast
  moreover have "q = [] @ q" by simp
  ultimately show "MatchString verbBranch q"
    unfolding MatchString_iff nonempty_iff by blast
qed

lemma returning_branch_iff:
  "MatchString returningBranch q \<longleftrightarrow> contains_bare_word ''RETURNING'' q"
proof
  assume "MatchString returningBranch q"
  then obtain a b x where "q = a @ b" "x \<in> set (matches returningBranch (a, b))"
    unfolding MatchString_iff nonempty_iff by blast
  then show "contains_bare_word ''RETURNING'' q"
    unfolding in_matches_returningBranch contains_bare_word_def by auto
next
  assume "contains_bare_word ''RETURNING'' q"
  then obtain pre m rest where q: "q = pre @ m @ rest" and r: "ci_equal ''RETURNING'' m"
    "word_starts pre" "word_ends rest"
    unfolding contains_bare_word_def by blast
  then have "(pre @ m, rest) \<in> set (matches returningBranch (pre, m @ rest))"
    unfolding in_matches_returningBranch by blast
  with q show "MatchString returningBranch q"
    unfolding MatchString_iff nonempty_iff by blast
qed

lemma MatchString_Alt: "MatchString (Alt r1 r2) q \<longleftrightarrow> MatchString r1 q \<or> MatchString r2 q"
  unfolding MatchString_iff by auto

text \<open>
  C4, as amended. For every statement \<open>q\<close> the classifier returns \<open>Write\<close> iff,
  after leading whitespace, \<open>q\<close> starts with one of INSERT, UPDATE, DELETE, MERGE,
  TRUNCATE, REPLACE (compared case-insensitively) ending at a word boundary, or \<open>q\<close>
  contains the word RETURNING, compared case-insensitively as well, between word
  boundaries; otherwise it returns \<open>Unknown\<close>. Case-insensitive is what
  \<^verbatim>\<open>(?i)\<close> makes it: equal up to simple case folding.
\<close>

theorem classifier_contract:
  "(Check q = QueryTypeWrite \<longleftrightarrow> first_token_is_verb q \<or> contains_bare_word ''RETURNING'' q)
   \<and> (Check q \<noteq> QueryTypeWrite \<longrightarrow> Check q = QueryTypeUnknown)"
  by (simp add: Check_def writePattern_def MatchString_Alt verb_branch_iff returning_branch_iff)


theorem classifier_contract_witness:
  "Check ''insert into t'' = QueryTypeWrite \<and>
   (first_token_is_verb ''insert into t'' \<or> contains_bare_word ''RETURNING'' ''insert into t'') \<and>
   Check ''SELECT 1'' = QueryTypeUnknown"
proof -
  have w: "Check ''insert into t'' = QueryTypeWrite" by code_simp
  have u: "Check ''SELECT 1'' \<noteq> QueryTypeWrite" by code_simp
  show ?thesis
    using w u classifier_contract [of "''insert into t''"] classifier_contract [of "''SELECT 1''"]
    by simp
qed

text \<open>
  Read letter by letter, the second half of the claim asks for the upper-case word
  RETURNING. The flag \<^verbatim>\<open>(?i)\<close> covers the whole pattern, so a lower-case
  \<open>returning\<close> makes the statement a write as well.
\<close>

theorem classifier_lowercase_returning_counterexample:
  "Check ''select id from t returning id'' = QueryTypeWrite \<and>
   \<not> (first_token_is_verb ''select id from t returning id'' \<or>
      contains_bare_word_exact ''RETURNING'' ''select id from t returning id'')"
proof -
  have w: "Check ''select id from t returning id'' = QueryTypeWrite" by code_simp
  have "\<not> MatchString verbBranch ''select id from t returning id''" by code_simp
  then have v: "\<not> first_token_is_verb ''select id from t returning id''"
    using verb_branch_iff by blast
  have r: "\<not> contains_bare_word_exact ''RETURNING'' ''select id from t returning id''"
  proof
    assume "contains_bare_word_exact ''RETURNING'' ''select id from t returning id''"
    then obtain pre rest where "''select id from t returning id'' = pre @ ''RETURNING'' @ rest"
      unfolding contains_bare_word_exact_def by blast
    then have "set ''select id from t returning id'' = set (pre @ ''RETURNING'' @ rest)"
      by (rule arg_cong)
    moreover have "CHR ''R'' \<in> set (pre @ ''RETURNING'' @ rest)" by simp
    ultimately have "CHR ''R'' \<in> set ''select id from t returning id''" by (simp only:)
    then show False by simp
  qed
  show ?thesis using w v r by blast
qed

section \<open>Routing\<close>

lemma RoundRobin_member: "dbs \<noteq> [] \<Longrightarrow> RoundRobin n dbs \<in> set dbs"
  by (simp add: RoundRobin_def)

lemma selector_ok_scripted: "selector_ok (scripted f)"
  by (simp add: selector_ok_def scripted_def RoundRobin_member)

lemma selector_okD: "selector_ok be \<Longrightarrow> dbs \<noteq> [] \<Longrightarrow> Resolve be n dbs \<in> set dbs"
  by (simp add: selector_ok_def)

lemma GetLastReplayLSN_frame:
  "GetLastReplayLSN be d w = (res, w') \<Longrightarrow>
   w' = w\<lparr>trace := trace w @ [OnDB d (OpQueryRowScan ''SELECT pg_last_wal_replay_lsn()'')]\<rparr>"
  by (auto simp: GetLastReplayLSN_def perform_def split: sum.splits)


lemma not_LessThan_iff: "\<not> LessThan a b \<longleftrightarrow> GreaterThanOrEqual a b"
  by (auto simp: LessThan_def GreaterThanOrEqual_def)

text \<open>
  C3, as amended. For every query classified as Write, an enabled CausalRouter with at
  least one primary returns a primary handle, whatever the context holds: no token, or a
  token with any required LSN and any force flag.
\<close>

theorem write_routes_to_primary:
  assumes "Enabled (config r)" and "dbProvider r = Some prov" and "PrimaryDBs prov \<noteq> []"
    and "selector_ok be"
  shows "RouteQuery be r ctx QueryTypeWrite w =
           (Inr (Resolve be (lb_calls w) (PrimaryDBs prov)), w\<lparr>lb_calls := Suc (lb_calls w)\<rparr>)
         \<and> Resolve be (lb_calls w) (PrimaryDBs prov) \<in> set (PrimaryDBs prov)"
  using assms
  by (simp add: RouteQuery_def Let_def lb_Resolve_def selector_okD split: option.splits)

theorem write_routes_to_primary_witness:
  "Enabled (config \<lparr>config = ryw_config, dbProvider = Some one_one\<rparr>)
   \<and> PrimaryDBs one_one \<noteq> [] \<and> selector_ok (scripted (\<lambda>ev. Inr []))
   \<and> fst (RouteQuery (scripted (\<lambda>ev. Inr [])) \<lparr>config = ryw_config, dbProvider = Some one_one\<rparr>
        Background QueryTypeWrite initial_world) = Inr 1"
proof -
  have e: "Enabled (config \<lparr>config = ryw_config, dbProvider = Some one_one\<rparr>)"
    by (simp add: ryw_config_def)
  have p: "dbProvider \<lparr>config = ryw_config, dbProvider = Some one_one\<rparr> = Some one_one" by simp
  have n: "PrimaryDBs one_one \<noteq> []" by (simp add: one_one_def)
  have s: "selector_ok (scripted (\<lambda>ev. Inr []))" by (rule selector_ok_scripted)
  have v: "Resolve (scripted (\<lambda>ev. Inr [])) (lb_calls initial_world) (PrimaryDBs one_one) = 1"
    by (simp add: scripted_def RoundRobin_def initial_world_def one_one_def)
  show ?thesis
    using write_routes_to_primary [OF e p n s, of Background initial_world] e n s v by simp
qed

text \<open>
  The claim as stated asks for nothing but a primary. A router that is not enabled (the
  default configuration) refuses every query, writes included.
\<close>

theorem write_routing_disabled_counterexample:
  "PrimaryDBs one_one \<noteq> [] \<and>
   RouteQuery (scripted (\<lambda>ev. Inr [])) (NewCausalRouter (Some one_one) None)
     Background QueryTypeWrite initial_world = (Inl ErrCausalNotEnabled, initial_world)"
  by (simp add: RouteQuery_def NewCausalRouter_def DefaultCausalConsistencyConfig_def one_one_def)

text \<open>
  C2, as amended. Take an enabled CausalRouter at level ReadYourWrites with at least one
  primary and one replica, a query that is not a write, and a token that does not force
  the primary and whose required LSN \<open>L\<close> is not zero. The router asks the selector for
  one replica and reads its replay LSN. It returns that replica iff the read succeeds
  with an LSN \<open>\<ge> L\<close>; otherwise (the replica lags, or the adapter fails) it returns a
  primary when \<open>FallbackToMaster\<close> is set and fails when it is not.
\<close>

theorem ryw_read_routing:
  assumes "Enabled (config r)" and "dbProvider r = Some prov"
    and "PrimaryDBs prov \<noteq> []" and "ReplicaDBs prov \<noteq> []"
    and "Level (config r) = ReadYourWrites" and "queryType \<noteq> QueryTypeWrite"
    and "GetLSNContext ctx = Some p" and "\<not> ForceMaster (tokens w p)"
    and "\<not> IsZero (RequiredLSN (tokens w p))"
    and "selector_ok be"
  shows
    "(let L = RequiredLSN (tokens w p);
          selected = Resolve be (lb_calls w) (ReplicaDBs prov);
          primary = Resolve be (Suc (lb_calls w)) (PrimaryDBs prov);
          (observed, w2) = GetLastReplayLSN be selected (w\<lparr>lb_calls := Suc (lb_calls w)\<rparr>)
      in selected \<in> set (ReplicaDBs prov) \<and> primary \<in> set (PrimaryDBs prov) \<and>
         RouteQuery be r ctx queryType w =
           (if (case observed of Inr replay \<Rightarrow> GreaterThanOrEqual replay L | Inl err \<Rightarrow> False)
            then (Inr selected, w2)
            else if FallbackToMaster (config r)
              then (Inr primary, w2\<lparr>lb_calls := Suc (Suc (lb_calls w))\<rparr>)
            else (Inl ErrNoReplicaCaughtUp, w2)))"
proof -
  obtain observed w2 where
    probe: "GetLastReplayLSN be (Resolve be (lb_calls w) (ReplicaDBs prov))
              (w\<lparr>lb_calls := Suc (lb_calls w)\<rparr>) = (observed, w2)"
    by (cases "GetLastReplayLSN be (Resolve be (lb_calls w) (ReplicaDBs prov))
              (w\<lparr>lb_calls := Suc (lb_calls w)\<rparr>)") auto
  from GetLastReplayLSN_frame [OF probe] have lb2: "lb_calls w2 = Suc (lb_calls w)" by simp
  have m1: "Resolve be (lb_calls w) (ReplicaDBs prov) \<in> set (ReplicaDBs prov)"
    using assms(4,10) by (simp add: selector_okD)
  have m2: "Resolve be (Suc (lb_calls w)) (PrimaryDBs prov) \<in> set (PrimaryDBs prov)"
    using assms(3,10) by (simp add: selector_okD)
  have sur: "shouldUseReplica be prov (RequiredLSN (tokens w p)) w =
      (if (case observed of Inr replay \<Rightarrow> GreaterThanOrEqual replay (RequiredLSN (tokens w p))
           | Inl err \<Rightarrow> False)
       then ((True, Resolve be (lb_calls w) (ReplicaDBs prov), None), w2)
       else ((False, nil_db, None), w2))"
    using assms(4,9) probe
    by (simp add: shouldUseReplica_def Let_def lb_Resolve_def not_LessThan_iff split: sum.splits)
  have "RouteQuery be r ctx queryType w =
           (if (case observed of Inr replay \<Rightarrow> GreaterThanOrEqual replay (RequiredLSN (tokens w p))
                | Inl err \<Rightarrow> False)
            then (Inr (Resolve be (lb_calls w) (ReplicaDBs prov)), w2)
            else if FallbackToMaster (config r)
              then (Inr (Resolve be (Suc (lb_calls w)) (PrimaryDBs prov)),
                    w2\<lparr>lb_calls := Suc (Suc (lb_calls w))\<rparr>)
            else (Inl ErrNoReplicaCaughtUp, w2))"
    using assms(1-3,5-9) lb2
    by (simp add: RouteQuery_def Let_def sur lb_Resolve_def)
  with m1 m2 probe show ?thesis by (simp add: Let_def)
qed

lemma ParseLSN_0_80: "ParseLSN ''0/80'' = Inr \<lparr>Upper = 0, Lower = 128\<rparr>"
  by (simp add: ParseLSN_def ParseUint_16_32_def hex_value_def)

lemma ParseLSN_0_60: "ParseLSN ''0/60'' = Inr \<lparr>Upper = 0, Lower = 96\<rparr>"
  by (simp add: ParseLSN_def ParseUint_16_32_def hex_value_def)

theorem ryw_read_routing_witness:
  "Enabled (config \<lparr>config = ryw_config, dbProvider = Some one_one\<rparr>)
   \<and> PrimaryDBs one_one \<noteq> [] \<and> ReplicaDBs one_one \<noteq> []
   \<and> Level (config \<lparr>config = ryw_config, dbProvider = Some one_one\<rparr>) = ReadYourWrites
   \<and> QueryTypeRead \<noteq> QueryTypeWrite
   \<and> GetLSNContext token_ctx = Some 0
   \<and> \<not> ForceMaster (tokens (world_with_token \<lparr>Upper = 0, Lower = 96\<rparr>) 0)
   \<and> \<not> IsZero (RequiredLSN (tokens (world_with_token \<lparr>Upper = 0, Lower = 96\<rparr>) 0))
   \<and> selector_ok (scripted (\<lambda>ev. Inr ''0/80''))
   \<and> fst (RouteQuery (scripted (\<lambda>ev. Inr ''0/80'')) \<lparr>config = ryw_config, dbProvider = Some one_one\<rparr>
        token_ctx QueryTypeRead (world_with_token \<lparr>Upper = 0, Lower = 96\<rparr>)) = Inr 2"
proof -
  let ?r = "\<lparr>config = ryw_config, dbProvider = Some one_one\<rparr>"
  let ?w = "world_with_token \<lparr>Upper = 0, Lower = 96\<rparr>"
  let ?be = "scripted (\<lambda>ev. Inr ''0/80'')"
  have h1: "Enabled (config ?r)" by (simp add: ryw_config_def)
  have h2: "dbProvider ?r = Some one_one" by simp
  have h3: "PrimaryDBs one_one \<noteq> []" by (simp add: one_one_def)
  have h4: "ReplicaDBs one_one \<noteq> []" by (simp add: one_one_def)
  have h5: "Level (config ?r) = ReadYourWrites"
    by (simp add: ryw_config_def DefaultCausalConsistencyConfig_def)
  have h6: "QueryTypeRead \<noteq> QueryTypeWrite" by simp
  have h7: "GetLSNContext token_ctx = Some 0" by (simp add: GetLSNContext_def token_ctx_def)
  have h8: "\<not> ForceMaster (tokens ?w 0)"
    by (simp add: world_with_token_def empty_LSNContext_def)
  have h9: "\<not> IsZero (RequiredLSN (tokens ?w 0))"
    by (simp add: world_with_token_def IsZero_def)
  have h10: "selector_ok ?be" by (rule selector_ok_scripted)
  have sel: "Resolve ?be (lb_calls ?w) (ReplicaDBs one_one) = 2"
    by (simp add: scripted_def RoundRobin_def world_with_token_def initial_world_def one_one_def)
  have probe: "fst (GetLastReplayLSN ?be 2 (?w\<lparr>lb_calls := Suc (lb_calls ?w)\<rparr>))
      = Inr \<lparr>Upper = 0, Lower = 128\<rparr>"
    by (simp add: GetLastReplayLSN_def perform_def scripted_def ParseLSN_0_80)
  have ge: "GreaterThanOrEqual \<lparr>Upper = 0, Lower = 128\<rparr> (RequiredLSN (tokens ?w 0))"
    by (simp add: GreaterThanOrEqual_def Compare_def world_with_token_def)
  have "fst (RouteQuery ?be ?r token_ctx QueryTypeRead ?w) = Inr 2"
    using ryw_read_routing [OF h1 h2 h3 h4 h5 h6 h7 h8 h9 h10] sel probe ge
    by (simp add: Let_def split_beta)
  with h1 h3 h4 h5 h6 h7 h8 h9 h10 show ?thesis by blast
qed

text \<open>
  The claim as stated does not ask for an enabled router. With the default
  configuration (level ReadYourWrites, fallback on, not enabled) the replica has caught
  up, and the router still refuses the read.
\<close>

theorem ryw_read_routing_disabled_counterexample:
  "Level (config (NewCausalRouter (Some one_one) None)) = ReadYourWrites
   \<and> PrimaryDBs one_one \<noteq> [] \<and> ReplicaDBs one_one \<noteq> []
   \<and> GetLSNContext token_ctx = Some 0
   \<and> \<not> ForceMaster (tokens (world_with_token \<lparr>Upper = 0, Lower = 96\<rparr>) 0)
   \<and> \<not> IsZero (RequiredLSN (tokens (world_with_token \<lparr>Upper = 0, Lower = 96\<rparr>) 0))
   \<and> fst (GetLastReplayLSN (scripted (\<lambda>ev. Inr ''0/80'')) 2
            (world_with_token \<lparr>Upper = 0, Lower = 96\<rparr>)) = Inr \<lparr>Upper = 0, Lower = 128\<rparr>
   \<and> GreaterThanOrEqual \<lparr>Upper = 0, Lower = 128\<rparr> \<lparr>Upper = 0, Lower = 96\<rparr>
   \<and> fst (RouteQuery (scripted (\<lambda>ev. Inr ''0/80'')) (NewCausalRouter (Some one_one) None)
        token_ctx QueryTypeRead (world_with_token \<lparr>Upper = 0, Lower = 96\<rparr>))
       = Inl ErrCausalNotEnabled"
proof -
  have a: "Level (config (NewCausalRouter (Some one_one) None)) = ReadYourWrites"
    by (simp add: NewCausalRouter_def DefaultCausalConsistencyConfig_def)
  have b: "PrimaryDBs one_one \<noteq> [] \<and> ReplicaDBs one_one \<noteq> []" by (simp add: one_one_def)
  have c: "GetLSNContext token_ctx = Some 0" by (simp add: GetLSNContext_def token_ctx_def)
  have d: "\<not> ForceMaster (tokens (world_with_token \<lparr>Upper = 0, Lower = 96\<rparr>) 0)"
    by (simp add: world_with_token_def empty_LSNContext_def)
  have e: "\<not> IsZero (RequiredLSN (tokens (world_with_token \<lparr>Upper = 0, Lower = 96\<rparr>) 0))"
    by (simp add: world_with_token_def IsZero_def)
  have f: "fst (GetLastReplayLSN (scripted (\<lambda>ev. Inr ''0/80'')) 2
            (world_with_token \<lparr>Upper = 0, Lower = 96\<rparr>)) = Inr \<lparr>Upper = 0, Lower = 128\<rparr>"
    by (simp add: GetLastReplayLSN_def perform_def scripted_def ParseLSN_0_80)
  have g: "GreaterThanOrEqual \<lparr>Upper = 0, Lower = 128\<rparr> \<lparr>Upper = 0, Lower = 96\<rparr>"
    by (simp add: GreaterThanOrEqual_def Compare_def)
  have h: "fst (RouteQuery (scripted (\<lambda>ev. Inr ''0/80'')) (NewCausalRouter (Some one_one) None)
        token_ctx QueryTypeRead (world_with_token \<lparr>Upper = 0, Lower = 96\<rparr>))
       = Inl ErrCausalNotEnabled"
    by (simp add: RouteQuery_def NewCausalRouter_def DefaultCausalConsistencyConfig_def)
  show ?thesis using a b c d e f g h by blast
qed

section \<open>The causal token after a write\<close>



section \<open>The cookie on the response\<close>

text \<open>
  C8. For the zero LSN \<open>SetLSNCookie\<close> returns the response as it was: no header line
  is added. Whenever the response changes, the LSN was not zero.
\<close>

theorem zero_lsn_sets_no_cookie:
  "(IsZero lsn \<longrightarrow> SetLSNCookie lib w lsn name maxAge secure = w) \<and>
   (SetLSNCookie lib w lsn name maxAge secure \<noteq> w \<longrightarrow> \<not> IsZero lsn)"
  by (simp add: SetLSNCookie_def)

theorem zero_lsn_sets_no_cookie_witness:
  "IsZero zero_LSN \<and>
   SetLSNCookie \<lparr>cookie_String = (\<lambda>c. cookie_Name c @ ''='' @ cookie_Value c),
                 duration_seconds = (\<lambda>d. d div 1000000000)\<rparr>
     \<lparr>header = [(''Content-Type'', ''text/plain'')]\<rparr> zero_LSN ''pg_min_lsn'' 300000000000 False
     = \<lparr>header = [(''Content-Type'', ''text/plain'')]\<rparr> \<and>
   SetLSNCookie \<lparr>cookie_String = (\<lambda>c. cookie_Name c @ ''='' @ cookie_Value c),
                 duration_seconds = (\<lambda>d. d div 1000000000)\<rparr>
     \<lparr>header = []\<rparr> \<lparr>Upper = 0, Lower = 128\<rparr> [] 0 False
     \<noteq> \<lparr>header = []\<rparr> \<and>
   \<not> IsZero \<lparr>Upper = 0, Lower = 128\<rparr>"
proof -
  let ?lib = "\<lparr>cookie_String = (\<lambda>c. cookie_Name c @ ''='' @ cookie_Value c),
                 duration_seconds = (\<lambda>d. d div 1000000000)\<rparr>"
  have z: "IsZero zero_LSN" by (simp add: IsZero_def zero_LSN_def)
  have n: "SetLSNCookie ?lib \<lparr>header = []\<rparr> \<lparr>Upper = 0, Lower = 128\<rparr> [] 0 False
      \<noteq> \<lparr>header = []\<rparr>"
    by (simp add: SetLSNCookie_def http_SetCookie_def IsZero_def)
  show ?thesis
    using z n
      zero_lsn_sets_no_cookie [of zero_LSN ?lib "\<lparr>header = [(''Content-Type'', ''text/plain'')]\<rparr>"
        "''pg_min_lsn''" 300000000000 False]
      zero_lsn_sets_no_cookie [of "\<lparr>Upper = 0, Lower = 128\<rparr>" ?lib "\<lparr>header = []\<rparr>" "[]" 0 False]
    by blast
qed

section \<open>The facade: exec, query and transactions\<close>

lemma New_causal_db: "New [1] [2] Check (Some ryw_config) = Some causal_db"
  by (simp add: New_def causal_db_def ryw_config_def NewCausalRouter_def one_one_def)

text \<open>
  C1. \<open>ExecContext\<close> runs the statement on the primary that the load balancer picks
  and returns the driver's answer. It does nothing else: the only call in the log is the
  statement itself, so the primary's WAL position is never read, and the router's cached
  LSN and every causal token keep their values, whatever router the facade has and
  whether or not the statement succeeds.
\<close>

theorem exec_performs_no_capture:
  "ExecContext be dbf ctx query w =
     (answer be (trace w) (OnDB (Resolve be (lb_calls w) (primaries dbf)) (OpExec query)),
      w\<lparr>lb_calls := Suc (lb_calls w),
        trace := trace w @ [OnDB (Resolve be (lb_calls w) (primaries dbf)) (OpExec query)]\<rparr>)
   \<and> tokens (snd (ExecContext be dbf ctx query w)) = tokens w
   \<and> lastMasterLSN (snd (ExecContext be dbf ctx query w)) = lastMasterLSN w"
  by (simp add: ExecContext_def ReadWrite_def lb_Resolve_def perform_def)

text \<open>
  C7. \<open>BeginTx\<close> builds the transaction without a router. After a successful write
  and a successful commit the log holds the begin, the statement and the commit, and
  nothing else: the LSN capture has not run, and no token and no cached LSN has changed.
\<close>

theorem tx_commit_performs_no_capture:
  assumes "BeginTx be dbf ctx w0 = (Inr t0, w1)"
    and "tx_ExecContext be t0 ctx query w1 = ((Inr result, t1), w2)"
    and "Commit be t1 w2 = (None, w3)"
  shows "writesOccurred t1 \<and>
         trace w3 = trace w0 @ [OnDB (sourceDB t0) OpBegin, OnTx (sourceDB t0) (OpExec query),
                                OnTx (sourceDB t0) OpCommit] \<and>
         tokens w3 = tokens w0 \<and> lastMasterLSN w3 = lastMasterLSN w0"
proof -
  from assms(1) have t0: "tx_queryRouter t0 = None"
    and w1: "w1 = w0\<lparr>lb_calls := Suc (lb_calls w0), trace := trace w0 @ [OnDB (sourceDB t0) OpBegin]\<rparr>"
    by (auto simp: BeginTx_def ReadWrite_def lb_Resolve_def perform_def Let_def split: sum.splits)
  from assms(2) have t1: "t1 = t0\<lparr>writesOccurred := True\<rparr>"
    and w2: "w2 = w1\<lparr>trace := trace w1 @ [OnTx (sourceDB t0) (OpExec query)]\<rparr>"
    by (auto simp: tx_ExecContext_def perform_def markWriteOperation_def error_of_def Let_def)
  from assms(3) t1 t0 have w3: "w3 = w2\<lparr>trace := trace w2 @ [OnTx (sourceDB t0) OpCommit]\<rparr>"
    by (auto simp: Commit_def perform_def trackLSNAfterWrite_def Let_def split: if_splits)
  show ?thesis using t1 w1 w2 w3 by simp
qed

theorem tx_commit_performs_no_capture_witness:
  "(\<exists>t0 t1 w1 w2 w3.
      BeginTx (scripted (\<lambda>ev. Inr [])) causal_db token_ctx initial_world = (Inr t0, w1) \<and>
      tx_ExecContext (scripted (\<lambda>ev. Inr [])) t0 token_ctx ''INSERT INTO t VALUES (1)'' w1
        = ((Inr [], t1), w2) \<and>
      Commit (scripted (\<lambda>ev. Inr [])) t1 w2 = (None, w3) \<and>
      writesOccurred t1 \<and>
      trace w3 = [OnDB 1 OpBegin, OnTx 1 (OpExec ''INSERT INTO t VALUES (1)''), OnTx 1 OpCommit] \<and>
      lastMasterLSN w3 = zero_LSN)"
proof -
  let ?be = "scripted (\<lambda>ev. Inr [])"
  obtain t0 w1 where b: "BeginTx ?be causal_db token_ctx initial_world = (Inr t0, w1)"
    and s: "sourceDB t0 = 1"
    by (simp add: BeginTx_def ReadWrite_def lb_Resolve_def perform_def scripted_def causal_db_def
        RoundRobin_def initial_world_def)
  obtain t1 w2 where
    e: "tx_ExecContext ?be t0 token_ctx ''INSERT INTO t VALUES (1)'' w1 = ((Inr [], t1), w2)"
    by (simp add: tx_ExecContext_def perform_def scripted_def)
  obtain err w3 where c: "Commit ?be t1 w2 = (err, w3)" by (cases "Commit ?be t1 w2") auto
  have "fst (Commit ?be t1 w2) = None"
    by (simp add: Commit_def perform_def scripted_def error_of_def Let_def split_beta)
  with c have c': "Commit ?be t1 w2 = (None, w3)" by simp
  from tx_commit_performs_no_capture [OF b e c'] s
  have "writesOccurred t1 \<and>
      trace w3 = [OnDB 1 OpBegin, OnTx 1 (OpExec ''INSERT INTO t VALUES (1)''), OnTx 1 OpCommit] \<and>
      lastMasterLSN w3 = zero_LSN"
    by (simp add: initial_world_def)
  with b e c' show ?thesis by blast
qed

text \<open>
  The rest of the transaction's life cycle: a rollback, and a commit of a transaction in
  which no write succeeded, send one call to the transaction and leave every token and
  the cached LSN as they were.
\<close>

lemma rollback_performs_no_capture:
  "Rollback be t w =
     (error_of (answer be (trace w) (OnTx (sourceDB t) OpRollback)),
      w\<lparr>trace := trace w @ [OnTx (sourceDB t) OpRollback]\<rparr>)"
  by (simp add: Rollback_def perform_def)

lemma commit_without_writes_performs_no_capture:
  "\<not> writesOccurred t \<Longrightarrow>
   Commit be t w =
     (error_of (answer be (trace w) (OnTx (sourceDB t) OpCommit)),
      w\<lparr>trace := trace w @ [OnTx (sourceDB t) OpCommit]\<rparr>)"
  by (simp add: Commit_def perform_def Let_def)

text \<open>The router's own traffic consists of LSN probes, which are no run of a statement.\<close>

lemma stmt_targets_probes:
  assumes "probes_only evs" and "\<forall>s. stmt \<noteq> OpQueryRowScan s"
  shows "stmt_targets stmt evs = []"
  using assms by (induction evs) (auto simp: probes_only_def)

lemma lb_Resolve_frame:
  "lb_Resolve be dbs w = (d, w1) \<Longrightarrow> trace w1 = trace w \<and> d = Resolve be (lb_calls w) dbs"
  by (auto simp: lb_Resolve_def)

lemma shouldUseReplica_frame:
  "shouldUseReplica be prov lsn w = (res, w1) \<Longrightarrow>
   \<exists>evs. trace w1 = trace w @ evs \<and> probes_only evs"
  by (auto simp: shouldUseReplica_def Let_def lb_Resolve_def probes_only_def
      split: if_splits prod.splits sum.splits dest!: GetLastReplayLSN_frame)

lemma RouteQuery_frame:
  "RouteQuery be r ctx queryType w = (res, w1) \<Longrightarrow>
   \<exists>evs. trace w1 = trace w @ evs \<and> probes_only evs"
proof -
  assume a: "RouteQuery be r ctx queryType w = (res, w1)"
  have triv: "\<And>w'. trace w' = trace w \<Longrightarrow> \<exists>evs. trace w' = trace w @ evs \<and> probes_only evs"
    by (rule_tac x = "[]" in exI) (simp add: probes_only_def)
  show ?thesis
  proof (cases "\<exists>prov p. dbProvider r = Some prov \<and> Enabled (config r) \<and> PrimaryDBs prov \<noteq> []
      \<and> GetLSNContext ctx = Some p \<and> \<not> ForceMaster (tokens w p) \<and> queryType \<noteq> QueryTypeWrite
      \<and> Level (config r) = ReadYourWrites \<and> \<not> IsZero (RequiredLSN (tokens w p))")
    case True
    then obtain prov p where h: "dbProvider r = Some prov" "Enabled (config r)"
      "PrimaryDBs prov \<noteq> []" "GetLSNContext ctx = Some p" "\<not> ForceMaster (tokens w p)"
      "queryType \<noteq> QueryTypeWrite" "Level (config r) = ReadYourWrites"
      "\<not> IsZero (RequiredLSN (tokens w p))" by blast
    obtain u d e w2 where s: "shouldUseReplica be prov (RequiredLSN (tokens w p)) w = ((u, d, e), w2)"
      by (metis prod_cases3 surj_pair)
    from shouldUseReplica_frame [OF s] obtain evs where
      evs: "trace w2 = trace w @ evs" "probes_only evs" by blast
    from a h s have "trace w1 = trace w2"
      by (auto simp: RouteQuery_def Let_def lb_Resolve_def split: option.splits if_splits)
    with evs show ?thesis by auto
  next
    case False
    with a have "trace w1 = trace w"
      by (auto simp: RouteQuery_def Let_def lb_Resolve_def
          split: option.splits if_splits CausalConsistencyLevel.splits)
    then show ?thesis by (rule triv)
  qed
qed

lemma SimpleRouter_RouteQuery_frame:
  "SimpleRouter_RouteQuery be p queryType w = (res, w1) \<Longrightarrow> trace w1 = trace w"
  by (auto simp: SimpleRouter_RouteQuery_def lb_Resolve_def
      split: option.splits if_splits QueryType.splits)

lemma ReadWrite_frame:
  "ReadWrite be dbf w = (d, w1) \<Longrightarrow>
   trace w1 = trace w \<and> d = Resolve be (lb_calls w) (primaries dbf)"
  by (auto simp: ReadWrite_def lb_Resolve_def)

lemma ReadOnly_frame: "ReadOnly be dbf w = (d, w1) \<Longrightarrow> trace w1 = trace w"
  by (auto simp: ReadOnly_def lb_Resolve_def split: if_splits)

lemma ReadWithLSN_frame:
  assumes "ReadWithLSN be dbf ctx w = (d, w1)"
  shows "\<exists>evs. trace w1 = trace w @ evs \<and> probes_only evs"
proof (cases "queryRouter dbf")
  case None
  with assms have "trace w1 = trace w" by (auto simp: ReadWithLSN_def dest: ReadOnly_frame)
  then show ?thesis by (rule_tac x = "[]" in exI) (simp add: probes_only_def)
next
  case (Some qr)
  obtain res w2 where q: "QueryRouter_RouteQuery be qr ctx QueryTypeRead w = (res, w2)"
    by (cases "QueryRouter_RouteQuery be qr ctx QueryTypeRead w") auto
  have "\<exists>evs. trace w2 = trace w @ evs \<and> probes_only evs"
  proof (cases qr)
    case (Causal r)
    with q show ?thesis by (auto simp: QueryRouter_RouteQuery_def dest: RouteQuery_frame)
  next
    case (Simple p)
    with q have "trace w2 = trace w"
      by (auto simp: QueryRouter_RouteQuery_def dest: SimpleRouter_RouteQuery_frame)
    then show ?thesis by (rule_tac x = "[]" in exI) (simp add: probes_only_def)
  qed
  moreover have "trace w1 = trace w2"
    using assms Some q by (auto simp: ReadWithLSN_def split: sum.splits dest: ReadOnly_frame)
  ultimately show ?thesis by auto
qed

lemma retry_contract_general:
  assumes np: "primaries dbf \<noteq> []" and sel: "selector_ok be"
    and stmt: "\<forall>s. stmt \<noteq> OpQueryRowScan s"
    and pick: "pick = (if write then ReadWrite be dbf w
                       else if queryRouter dbf \<noteq> None then ReadWithLSN be dbf ctx w
                       else ReadOnly be dbf w)"
    and out: "out = (let (curDB, w1) = pick;
                         (res, w2) = perform be (OnDB curDB stmt) w1
                     in if connection_failed be res \<and> \<not> write then
                          (let (p, w3) = ReadWrite be dbf w2 in perform be (OnDB p stmt) w3)
                        else (res, w2))"
  shows "read_retry_contract be dbf write stmt w out"
proof -
  obtain d w1 where p: "pick = (d, w1)" by (cases pick) auto
  with pick have sel_eq:
    "(if write then ReadWrite be dbf w
      else if queryRouter dbf \<noteq> None then ReadWithLSN be dbf ctx w
      else ReadOnly be dbf w) = (d, w1)" by simp
  have fr: "\<exists>evs. trace w1 = trace w @ evs \<and> probes_only evs"
  proof (cases "write")
    case True
    with sel_eq have "ReadWrite be dbf w = (d, w1)" by simp
    from ReadWrite_frame [OF this] have "trace w1 = trace w" by simp
    then show ?thesis by (rule_tac x = "[]" in exI) (simp add: probes_only_def)
  next
    case False
    show ?thesis
    proof (cases "queryRouter dbf \<noteq> None")
      case True
      with False sel_eq have "ReadWithLSN be dbf ctx w = (d, w1)" by simp
      then show ?thesis by (rule ReadWithLSN_frame)
    next
      case False
      with \<open>\<not> write\<close> sel_eq have "ReadOnly be dbf w = (d, w1)" by simp
      from ReadOnly_frame [OF this] have "trace w1 = trace w" .
      then show ?thesis by (rule_tac x = "[]" in exI) (simp add: probes_only_def)
    qed
  qed
  then obtain evs where evs: "trace w1 = trace w @ evs" "probes_only evs" by blast
  have nt: "stmt_targets stmt evs = []" using evs(2) stmt by (rule stmt_targets_probes)
  have wd: "write \<longrightarrow> d \<in> set (primaries dbf)"
  proof
    assume "write"
    with sel_eq have "ReadWrite be dbf w = (d, w1)" by simp
    from ReadWrite_frame [OF this] show "d \<in> set (primaries dbf)"
      using np sel by (simp add: selector_okD)
  qed
  let ?first = "answer be (trace w @ evs) (OnDB d stmt)"
  let ?w2 = "w1\<lparr>trace := trace w1 @ [OnDB d stmt]\<rparr>"
  have prim: "Resolve be (lb_calls ?w2) (primaries dbf) \<in> set (primaries dbf)"
    using np sel by (simp add: selector_okD)
  show ?thesis
  proof (cases "connection_failed be ?first \<and> \<not> write")
    case True
    then have "fst out = answer be ((trace w @ evs) @ [OnDB d stmt])
                (OnDB (Resolve be (lb_calls ?w2) (primaries dbf)) stmt)
        \<and> trace (snd out) = (trace w @ evs) @ [OnDB d stmt,
                OnDB (Resolve be (lb_calls ?w2) (primaries dbf)) stmt]"
      using out p evs(1) by (simp add: perform_def ReadWrite_def lb_Resolve_def)
    with True prim nt wd show ?thesis
      unfolding read_retry_contract_def Let_def
      by (intro exI [of _ evs] exI [of _ d]) auto
  next
    case False
    then have "fst out = ?first \<and> trace (snd out) = (trace w @ evs) @ [OnDB d stmt]"
      using out p evs(1) by (auto simp: perform_def)
    with False nt wd show ?thesis
      unfolding read_retry_contract_def Let_def
      by (intro exI [of _ evs] exI [of _ d]) auto
  qed
qed

text \<open>
  C9. \<open>QueryContext\<close> and \<open>QueryRowContext\<close> keep the retry discipline: the statement
  runs on the selected pool; a read whose run fails with a connection error runs exactly
  once more, on a primary, and the answer of that second run is returned as it is; a
  write runs on a primary only and is never run again.
\<close>

theorem read_retried_once_on_primary:
  assumes "primaries dbf \<noteq> []" and "selector_ok be"
  shows "read_retry_contract be dbf (queryTypeChecker dbf query = QueryTypeWrite)
           (OpQuery query) w (QueryContext be dbf ctx query w)
       \<and> read_retry_contract be dbf (queryTypeChecker dbf query = QueryTypeWrite)
           (OpQueryRow query) w (QueryRowContext be dbf ctx query w)"
proof
  show "read_retry_contract be dbf (queryTypeChecker dbf query = QueryTypeWrite)
           (OpQuery query) w (QueryContext be dbf ctx query w)"
    by (rule retry_contract_general [OF assms _ refl]) (simp_all add: QueryContext_def Let_def)
  show "read_retry_contract be dbf (queryTypeChecker dbf query = QueryTypeWrite)
           (OpQueryRow query) w (QueryRowContext be dbf ctx query w)"
    by (rule retry_contract_general [OF assms _ refl]) (simp_all add: QueryRowContext_def Let_def)
qed

lemma Check_SELECT_1: "Check ''SELECT 1'' = QueryTypeUnknown"
  by code_simp

theorem read_retried_once_on_primary_witness:
  "primaries causal_db \<noteq> []
   \<and> selector_ok (scripted (\<lambda>ev. if ev = OnDB 2 (OpQuery ''SELECT 1'') then Inl (DriverError 1)
                                 else Inr ''rows''))
   \<and> read_retry_contract
        (scripted (\<lambda>ev. if ev = OnDB 2 (OpQuery ''SELECT 1'') then Inl (DriverError 1)
                        else Inr ''rows''))
        causal_db (queryTypeChecker causal_db ''SELECT 1'' = QueryTypeWrite)
        (OpQuery ''SELECT 1'') initial_world
        (QueryContext
           (scripted (\<lambda>ev. if ev = OnDB 2 (OpQuery ''SELECT 1'') then Inl (DriverError 1)
                           else Inr ''rows''))
           causal_db Background ''SELECT 1'' initial_world)
   \<and> fst (QueryContext
           (scripted (\<lambda>ev. if ev = OnDB 2 (OpQuery ''SELECT 1'') then Inl (DriverError 1)
                           else Inr ''rows''))
           causal_db Background ''SELECT 1'' initial_world) = Inr ''rows''
   \<and> trace (snd (QueryContext
           (scripted (\<lambda>ev. if ev = OnDB 2 (OpQuery ''SELECT 1'') then Inl (DriverError 1)
                           else Inr ''rows''))
           causal_db Background ''SELECT 1'' initial_world))
       = [OnDB 2 (OpQuery ''SELECT 1''), OnDB 1 (OpQuery ''SELECT 1'')]"
proof -
  let ?be = "scripted (\<lambda>ev. if ev = OnDB 2 (OpQuery ''SELECT 1'') then Inl (DriverError 1)
                           else Inr ''rows'')"
  have h1: "primaries causal_db \<noteq> []" by (simp add: causal_db_def)
  have h2: "selector_ok ?be" by (rule selector_ok_scripted)
  have route: "RouteQuery ?be \<lparr>config = ryw_config, dbProvider = Some one_one\<rparr> Background
      QueryTypeRead initial_world = (Inr 2, initial_world\<lparr>lb_calls := 1\<rparr>)"
    by (simp add: RouteQuery_def Let_def ryw_config_def DefaultCausalConsistencyConfig_def
        one_one_def GetLSNContext_def Background_def lb_Resolve_def scripted_def RoundRobin_def
        initial_world_def)
  have run: "QueryContext ?be causal_db Background ''SELECT 1'' initial_world =
      (Inr ''rows'',
       initial_world\<lparr>lb_calls := 2,
         trace := [OnDB 2 (OpQuery ''SELECT 1''), OnDB 1 (OpQuery ''SELECT 1'')]\<rparr>)"
    by (simp add: QueryContext_def Let_def causal_db_def Check_SELECT_1 ReadWithLSN_def
        QueryRouter_RouteQuery_def route perform_def connection_failed_def ReadWrite_def
        lb_Resolve_def)
       (simp add: scripted_def RoundRobin_def initial_world_def)
  show ?thesis
    using h1 h2 read_retried_once_on_primary [OF h1 h2, of "''SELECT 1''" initial_world Background]
      run
    by simp
qed

section \<open>The inbound cookie\<close>






end
